theory Spec2Isabelle
  imports Complex_Main
begin

section \<open>Mouth Trap: the game state and its operations\<close>

text \<open>
  The game keeps its state in the variables of one closure; the model collects them in the
  record \<open>world\<close> and every function of the script that changes them takes the record and
  returns it updated. JavaScript numbers are modelled as exact reals: the values the game
  computes stay finite, and rounding of doubles is not part of the model. Values the script
  reads from its environment are parameters: the two results of \<open>Math.random()\<close> in
  \<open>spawnPipe\<close>, the clock of \<open>performance.now()\<close> in \<open>flap\<close>, the frame timestamp in
  \<open>gameLoop\<close>. The size of the canvas is part of the state (\<open>canvas_width\<close>,
  \<open>canvas_height\<close>); drawing changes no variable of the game and is left out.
\<close>

subsection \<open>Constants\<close>

definition GRAVITY :: real where "GRAVITY = 0.45"
definition FLAP_STRENGTH :: real where "FLAP_STRENGTH = - 7.5"
definition PIPE_GAP_MIN :: real where "PIPE_GAP_MIN = 140"
definition PIPE_GAP_MAX :: real where "PIPE_GAP_MAX = 200"
definition PIPE_WIDTH :: real where "PIPE_WIDTH = 70"
definition PIPE_INTERVAL_MS :: real where "PIPE_INTERVAL_MS = 1400"
definition SCROLL_SPEED :: real where "SCROLL_SPEED = 2.6"
definition MOUTH_SIZE :: real where "MOUTH_SIZE = 32"
definition GROUND_HEIGHT :: real where "GROUND_HEIGHT = 80"

subsection \<open>Data\<close>

text \<open>
  One obstacle, as \<open>spawnPipe\<close> builds it. The field \<open>x\<close> of the script is \<open>pipe_x\<close> here,
  so that it does not capture the variable name.
\<close>

record pipe =
  pipe_x :: real
  width :: real
  topHeight :: real
  gap :: real
  passed :: bool

text \<open>
  The variables of the game. \<open>storage_writes\<close> is the effect of
  \<open>localStorage.setItem('mouth_trap_best', String(best))\<close>: the numbers written under the
  key, oldest first.
\<close>

record world =
  canvas_width :: real
  canvas_height :: real
  mouthY :: real
  mouthX :: real
  mouthVelY :: real
  pipes :: "pipe list"
  lastPipeAt :: real
  score :: real
  best :: real
  isRunning :: bool
  isGameOver :: bool
  lastTimestamp :: real
  backgroundOffset :: real
  storage_writes :: "real list"

subsection \<open>Reset and input\<close>

definition resetGame :: "world \<Rightarrow> world" where
  "resetGame w =
     w\<lparr>mouthY := canvas_height w / 2,
       mouthX := canvas_width w * 0.28,
       mouthVelY := 0,
       pipes := [],
       lastPipeAt := 0,
       score := 0,
       isGameOver := False,
       backgroundOffset := 0\<rparr>"

text \<open>
  \<open>flap now w\<close>: the handler of the activate input; \<open>now\<close> is the value of
  \<open>performance.now()\<close>, read only when the loop is started.
\<close>

definition flap :: "real \<Rightarrow> world \<Rightarrow> world" where
  "flap now w =
     (let w1 = (if \<not> isRunning w then w\<lparr>isRunning := True, lastTimestamp := now\<rparr> else w)
      in if isGameOver w1 then resetGame w1
         else w1\<lparr>mouthVelY := FLAP_STRENGTH\<rparr>)"

subsection \<open>Spawning\<close>

text \<open>
  \<open>spawnPipe r1 r2 w\<close>: \<open>r1\<close> and \<open>r2\<close> are the results of the first and the second call of
  \<open>Math.random()\<close>.
\<close>

definition spawnPipe :: "real \<Rightarrow> real \<Rightarrow> world \<Rightarrow> world" where
  "spawnPipe r1 r2 w =
     (let g = PIPE_GAP_MIN + r1 * (PIPE_GAP_MAX - PIPE_GAP_MIN);
          topLimit = 40;
          bottomLimit = canvas_height w - GROUND_HEIGHT - 40 - g;
          th = topLimit + r2 * (bottomLimit - topLimit);
          x0 = canvas_width w + PIPE_WIDTH
      in w\<lparr>pipes := pipes w @
             [\<lparr>pipe_x = x0, width = PIPE_WIDTH, topHeight = th, gap = g, passed = False\<rparr>]\<rparr>)"

subsection \<open>Collision\<close>

definition rectsOverlap ::
  "real \<Rightarrow> real \<Rightarrow> real \<Rightarrow> real \<Rightarrow> real \<Rightarrow> real \<Rightarrow> real \<Rightarrow> real \<Rightarrow> bool" where
  "rectsOverlap ax ay aw ah bx by bw bh =
     (ax < bx + bw \<and> ax + aw > bx \<and> ay < by + bh \<and> ay + ah > by)"

subsection \<open>The tick\<close>

text \<open>
  The remainder operator of JavaScript on numbers: the quotient is truncated towards zero,
  so the result has the sign of the dividend. (With a divisor 0 the script would get NaN;
  \<open>resizeCanvas\<close> keeps the width of the canvas at 320 or more.)
\<close>

definition js_rem :: "real \<Rightarrow> real \<Rightarrow> real" where
  "js_rem a b =
     a - b * of_int (if 0 \<le> a / b then \<lfloor>a / b\<rfloor> else \<lceil>a / b\<rceil>)"

text \<open>The block "Physics" and the block "Ground and ceiling" of \<open>update\<close>.\<close>

definition update_physics :: "world \<Rightarrow> world" where
  "update_physics w =
     (let w1 = w\<lparr>mouthVelY := mouthVelY w + GRAVITY\<rparr>;
          w2 = w1\<lparr>mouthY := mouthY w1 + mouthVelY w1\<rparr>;
          w3 = (if mouthY w2 < 0 then w2\<lparr>mouthY := 0, mouthVelY := 0\<rparr> else w2);
          groundY = canvas_height w3 - GROUND_HEIGHT - MOUTH_SIZE
      in if mouthY w3 > groundY then w3\<lparr>mouthY := groundY, isGameOver := True\<rparr> else w3)"

text \<open>
  One iteration of the loop over the obstacles, for the index \<open>i\<close>. The script holds the
  obstacle \<open>p\<close> by reference, so an assignment to a field of \<open>p\<close> is an update of the list
  at \<open>i\<close>; \<open>splice(i, 1)\<close> removes that position. The loop starts at the last index and a
  removal at \<open>i\<close> leaves the positions below \<open>i\<close> alone, so \<open>i\<close> is inside the list at
  every iteration (lemma \<open>pipes_loop_pipes\<close> goes through the list on that ground).
\<close>

definition pipe_body :: "nat \<Rightarrow> world \<Rightarrow> world" where
  "pipe_body i w =
     (let p = (pipes w ! i)\<lparr>pipe_x := pipe_x (pipes w ! i) - SCROLL_SPEED\<rparr>;
          w1 = w\<lparr>pipes := (pipes w)[i := p]\<rparr>
      in if pipe_x p + width p < - 10
         then w1\<lparr>pipes := take i (pipes w1) @ drop (Suc i) (pipes w1)\<rparr>
         else
           (let mouthCenter = mouthX w1 + MOUTH_SIZE / 2;
                pipeCenter = pipe_x p + width p / 2;
                w2 = (if \<not> passed p \<and> pipeCenter < mouthCenter
                      then (let w3 = w1\<lparr>pipes := (pipes w1)[i := p\<lparr>passed := True\<rparr>],
                                          score := score w1 + 1\<rparr>
                            in if score w3 > best w3
                               then (let w4 = w3\<lparr>best := score w3\<rparr>
                                     in w4\<lparr>storage_writes := storage_writes w4 @ [best w4]\<rparr>)
                               else w3)
                      else w1);
                q = pipes w2 ! i;
                mouthTop = mouthY w2;
                topRectCollide =
                  rectsOverlap (mouthX w2) mouthTop MOUTH_SIZE MOUTH_SIZE
                    (pipe_x q) 0 (width q) (topHeight q);
                bottomRectCollide =
                  rectsOverlap (mouthX w2) mouthTop MOUTH_SIZE MOUTH_SIZE
                    (pipe_x q) (topHeight q + gap q) (width q)
                    (canvas_height w2 - GROUND_HEIGHT - (topHeight q + gap q))
            in if topRectCollide \<or> bottomRectCollide then w2\<lparr>isGameOver := True\<rparr> else w2))"

text \<open>\<open>pipes_loop n w\<close> runs the iterations for the indices \<open>n - 1\<close> down to \<open>0\<close>.\<close>

fun pipes_loop :: "nat \<Rightarrow> world \<Rightarrow> world" where
  "pipes_loop 0 w = w"
| "pipes_loop (Suc i) w = pipes_loop i (pipe_body i w)"

text \<open>The block "Pipes" of \<open>update\<close>: the background offset, then the loop.\<close>

definition update_pipes :: "world \<Rightarrow> world" where
  "update_pipes w =
     (let w1 = w\<lparr>backgroundOffset :=
                   js_rem (backgroundOffset w + SCROLL_SPEED) (canvas_width w)\<rparr>
      in pipes_loop (length (pipes w1)) w1)"

text \<open>The block "Spawn pipes" of \<open>update\<close>.\<close>

definition update_spawn :: "real \<Rightarrow> real \<Rightarrow> real \<Rightarrow> world \<Rightarrow> world" where
  "update_spawn dt r1 r2 w =
     (let w1 = w\<lparr>lastPipeAt := lastPipeAt w + dt\<rparr>
      in if lastPipeAt w1 > PIPE_INTERVAL_MS
         then (spawnPipe r1 r2 w1)\<lparr>lastPipeAt := 0\<rparr>
         else w1)"

definition update :: "real \<Rightarrow> real \<Rightarrow> real \<Rightarrow> world \<Rightarrow> world" where
  "update dt r1 r2 w =
     (if isGameOver w then w
      else update_spawn dt r1 r2 (update_pipes (update_physics w)))"

text \<open>
  One animation frame: the frame delta is clamped to 50 ms, then \<open>update\<close> runs (\<open>draw\<close>
  and the rescheduling change no variable of the game).
\<close>

definition gameLoop :: "real \<Rightarrow> real \<Rightarrow> real \<Rightarrow> world \<Rightarrow> world" where
  "gameLoop timestamp r1 r2 w =
     (let dt = min 50 (timestamp - lastTimestamp w)
      in update dt r1 r2 (w\<lparr>lastTimestamp := timestamp\<rparr>))"

subsection \<open>Start-up\<close>

text \<open>
  The variables as the script initialises them, for a canvas of the given size, once the
  best score read from the storage is the number \<open>b\<close>. The reading can also give NaN
  (see \<open>initial_best\<close> below); a game that starts with NaN as its best score is not a
  state of this record, and no statement here is about it.
\<close>

definition fresh_world :: "real \<Rightarrow> real \<Rightarrow> real \<Rightarrow> world" where
  "fresh_world cw ch b =
     \<lparr>canvas_width = cw, canvas_height = ch,
      mouthY = ch / 2, mouthX = cw * 0.28, mouthVelY = 0,
      pipes = [], lastPipeAt = 0,
      score = 0, best = b,
      isRunning = False, isGameOver = False,
      lastTimestamp = 0, backgroundOffset = 0,
      storage_writes = []\<rparr>"

text \<open>
  The scenario of the specification: a game that has just started on a canvas of 480 by
  720, with one obstacle at \<open>x = 0\<close>.
\<close>

definition scenario_world :: world where
  "scenario_world =
     (fresh_world 480 720 0)
       \<lparr>pipes := [\<lparr>pipe_x = 0, width = PIPE_WIDTH, topHeight = 100, gap = 150,
                   passed = False\<rparr>]\<rparr>"

subsection \<open>Runs\<close>

text \<open>
  What happens to the game from outside: a tick of the simulation (\<open>update\<close> with its
  frame delta and the two random draws a spawn would use) or the activate input.
\<close>

datatype event = Tick real real real | Flap real

fun step :: "event \<Rightarrow> world \<Rightarrow> world" where
  "step (Tick dt r1 r2) w = update dt r1 r2 w"
| "step (Flap now) w = flap now w"

fun run :: "event list \<Rightarrow> world \<Rightarrow> world" where
  "run [] w = w"
| "run (e # es) w = run es (step e w)"

fun is_tick :: "event \<Rightarrow> bool" where
  "is_tick (Tick dt r1 r2) = True"
| "is_tick (Flap now) = False"

text \<open>A run of ticks, each of which starts with the game not over.\<close>

fun alive_ticks :: "event list \<Rightarrow> world \<Rightarrow> bool" where
  "alive_ticks [] w = True"
| "alive_ticks (e # es) w = (is_tick e \<and> \<not> isGameOver w \<and> alive_ticks es (step e w))"

text \<open>The largest score among the states a run goes through, the first one included.\<close>

fun max_score :: "event list \<Rightarrow> world \<Rightarrow> real" where
  "max_score [] w = score w"
| "max_score (e # es) w = max (score w) (max_score es (step e w))"

subsection \<open>One obstacle in one tick\<close>

text \<open>
  What one iteration of the loop does to the obstacle it visits, written for the obstacle
  alone; \<open>mx\<close> is the horizontal position of the player. Lemma \<open>pipes_loop_pipes\<close> shows
  that the loop does exactly this to every obstacle of the list.
\<close>

definition advance :: "pipe \<Rightarrow> pipe" where
  "advance p = p\<lparr>pipe_x := pipe_x p - SCROLL_SPEED\<rparr>"

definition offscreen :: "pipe \<Rightarrow> bool" where
  "offscreen p = (pipe_x p + width p < - 10)"

definition crossing :: "real \<Rightarrow> pipe \<Rightarrow> bool" where
  "crossing mx p = (\<not> passed p \<and> pipe_x p + width p / 2 < mx + MOUTH_SIZE / 2)"

definition tick_pipe :: "real \<Rightarrow> pipe \<Rightarrow> pipe option" where
  "tick_pipe mx p =
     (let q = advance p
      in if offscreen q then None
         else Some (if crossing mx q then q\<lparr>passed := True\<rparr> else q))"

text \<open>The obstacle is scored in this tick: it stays in the list and its flag flips.\<close>

definition flips :: "real \<Rightarrow> pipe \<Rightarrow> bool" where
  "flips mx p = (\<not> offscreen (advance p) \<and> crossing mx (advance p))"

text \<open>The obstacle after \<open>n\<close> ticks of a run, \<open>None\<close> once it has been removed.\<close>

fun pipe_after :: "nat \<Rightarrow> real \<Rightarrow> pipe \<Rightarrow> pipe option" where
  "pipe_after 0 mx p = Some p"
| "pipe_after (Suc n) mx p =
     (case pipe_after n mx p of None \<Rightarrow> None | Some q \<Rightarrow> tick_pipe mx q)"

subsection \<open>Overlap, as the specification words it\<close>

text \<open>
  The length of the common part of the intervals \<open>[a, a + la]\<close> and \<open>[b, b + lb]\<close>
  (negative when they are apart), and the wording of the specification: two boxes overlap
  when the common part has positive length on both axes.
\<close>

definition overlap_extent :: "real \<Rightarrow> real \<Rightarrow> real \<Rightarrow> real \<Rightarrow> real" where
  "overlap_extent a la b lb = min (a + la) (b + lb) - max a b"

definition positive_overlap ::
  "real \<Rightarrow> real \<Rightarrow> real \<Rightarrow> real \<Rightarrow> real \<Rightarrow> real \<Rightarrow> real \<Rightarrow> real \<Rightarrow> bool" where
  "positive_overlap ax ay aw ah bx by bw bh =
     (0 < overlap_extent ax aw bx bw \<and> 0 < overlap_extent ay ah by bh)"

subsection \<open>The best score in the storage\<close>

text \<open>
  The script starts with \<open>best = Number(localStorage.getItem('mouth_trap_best') || 0)\<close>.
  \<open>getItem\<close> gives \<open>null\<close> (here \<open>None\<close>) or the stored string. \<open>Number\<close> on a string is
  the conversion StringToNumber of the language: white space is trimmed at both ends, the
  empty rest is 0, a rest that is a numeric literal (decimal with an optional sign,
  fraction and exponent, \<open>Infinity\<close>, or a binary, octal or hexadecimal integer) is its
  value, and every other rest is NaN. The model takes the mathematical value of the
  literal (the rounding to a double and the sign of zero are left out) and strings of
  code units below 256.
\<close>

datatype jsnum = Num real | NaN | PosInfinity | NegInfinity

fun negate :: "jsnum \<Rightarrow> jsnum" where
  "negate (Num v) = Num (- v)"
| "negate NaN = NaN"
| "negate PosInfinity = NegInfinity"
| "negate NegInfinity = PosInfinity"

definition is_space :: "char \<Rightarrow> bool" where
  "is_space c =
     (c \<in> set [CHR 0x09, CHR 0x0A, CHR 0x0B, CHR 0x0C, CHR 0x0D, CHR 0x20, CHR 0xA0])"

definition trim :: "string \<Rightarrow> string" where
  "trim s = rev (dropWhile is_space (rev (dropWhile is_space s)))"

text \<open>The value of a character as a digit of the given radix.\<close>

definition digit_of :: "nat \<Rightarrow> char \<Rightarrow> nat option" where
  "digit_of radix c =
     (case map_of
        [(CHR ''0'', 0), (CHR ''1'', 1), (CHR ''2'', 2), (CHR ''3'', 3), (CHR ''4'', 4),
         (CHR ''5'', 5), (CHR ''6'', 6), (CHR ''7'', 7), (CHR ''8'', 8), (CHR ''9'', 9),
         (CHR ''a'', 10), (CHR ''b'', 11), (CHR ''c'', 12), (CHR ''d'', 13), (CHR ''e'', 14),
         (CHR ''f'', 15),
         (CHR ''A'', 10), (CHR ''B'', 11), (CHR ''C'', 12), (CHR ''D'', 13), (CHR ''E'', 14),
         (CHR ''F'', 15)] c of
        None \<Rightarrow> None
      | Some d \<Rightarrow> if d < radix then Some d else None)"

fun digits_acc :: "nat \<Rightarrow> nat \<Rightarrow> string \<Rightarrow> nat option" where
  "digits_acc radix acc [] = Some acc"
| "digits_acc radix acc (c # cs) =
     (case digit_of radix c of
        None \<Rightarrow> None
      | Some d \<Rightarrow> digits_acc radix (acc * radix + d) cs)"

text \<open>One or more digits; none or more digits.\<close>

definition digits_value :: "nat \<Rightarrow> string \<Rightarrow> nat option" where
  "digits_value radix s = (if s = [] then None else digits_acc radix 0 s)"

definition opt_digits_value :: "nat \<Rightarrow> string \<Rightarrow> nat option" where
  "opt_digits_value radix s = digits_acc radix 0 s"

text \<open>The exponent after its indicator: digits with an optional sign.\<close>

definition signed_integer :: "string \<Rightarrow> int option" where
  "signed_integer s =
     (case s of
        [] \<Rightarrow> None
      | c # cs \<Rightarrow>
          if c = CHR ''+'' then map_option int (digits_value 10 cs)
          else if c = CHR ''-'' then map_option (\<lambda>n. - int n) (digits_value 10 cs)
          else map_option int (digits_value 10 s))"

definition pow10 :: "int \<Rightarrow> real" where
  "pow10 e = (if 0 \<le> e then 10 ^ nat e else 1 / 10 ^ nat (- e))"

text \<open>
  The part before the exponent: digits, or digits around one dot with digits on at least
  one side of it.
\<close>

definition mantissa :: "string \<Rightarrow> real option" where
  "mantissa m =
     (let ip = takeWhile (\<lambda>c. c \<noteq> CHR ''.'') m;
          rest = dropWhile (\<lambda>c. c \<noteq> CHR ''.'') m
      in if rest = [] then map_option real (digits_value 10 ip)
         else
           (let fp = tl rest
            in if ip = [] \<and> fp = [] then None
               else
                 (case opt_digits_value 10 ip of
                    None \<Rightarrow> None
                  | Some a \<Rightarrow>
                      (case opt_digits_value 10 fp of
                         None \<Rightarrow> None
                       | Some b \<Rightarrow> Some (real a + real b / 10 ^ length fp)))))"

definition is_exp :: "char \<Rightarrow> bool" where
  "is_exp c = (c = CHR ''e'' \<or> c = CHR ''E'')"

definition unsigned_decimal :: "string \<Rightarrow> jsnum" where
  "unsigned_decimal s =
     (if s = ''Infinity'' then PosInfinity
      else
        (let m = takeWhile (\<lambda>c. \<not> is_exp c) s;
             rest = dropWhile (\<lambda>c. \<not> is_exp c) s
         in case mantissa m of
              None \<Rightarrow> NaN
            | Some v \<Rightarrow>
                if rest = [] then Num v
                else
                  (case signed_integer (tl rest) of
                     None \<Rightarrow> NaN
                   | Some e \<Rightarrow> Num (v * pow10 e))))"

text \<open>The radix and the digits of a literal that starts with 0x, 0o or 0b.\<close>

definition radix_prefix :: "string \<Rightarrow> (nat \<times> string) option" where
  "radix_prefix t =
     (case t of
        c0 # c1 # ds \<Rightarrow>
          if c0 \<noteq> CHR ''0'' then None
          else if c1 = CHR ''x'' \<or> c1 = CHR ''X'' then Some (16, ds)
          else if c1 = CHR ''o'' \<or> c1 = CHR ''O'' then Some (8, ds)
          else if c1 = CHR ''b'' \<or> c1 = CHR ''B'' then Some (2, ds)
          else None
      | _ \<Rightarrow> None)"

definition StringToNumber :: "string \<Rightarrow> jsnum" where
  "StringToNumber s =
     (let t = trim s
      in if t = [] then Num 0
         else
           (case radix_prefix t of
              Some (radix, ds) \<Rightarrow>
                (case digits_value radix ds of None \<Rightarrow> NaN | Some n \<Rightarrow> Num (real n))
            | None \<Rightarrow>
                if hd t = CHR ''+'' then unsigned_decimal (tl t)
                else if hd t = CHR ''-'' then negate (unsigned_decimal (tl t))
                else unsigned_decimal t))"

text \<open>
  \<open>initial_best item\<close>: the value of \<open>best\<close> at start-up, given what \<open>getItem\<close> returned.
  The operand of \<open>||\<close> is replaced by 0 when it is \<open>null\<close> or the empty string.
\<close>

definition initial_best :: "string option \<Rightarrow> jsnum" where
  "initial_best item =
     (case item of
        None \<Rightarrow> Num 0
      | Some s \<Rightarrow> if s = [] then Num 0 else StringToNumber s)"

text \<open>
  \<open>String(n)\<close> for an integer \<open>n\<close> (of magnitude below \<open>10 ^ 21\<close>): its decimal digits,
  after a minus sign when it is negative. This is what the script stores.
\<close>

definition digit_char :: "nat \<Rightarrow> char" where
  "digit_char d = ''0123456789'' ! d"

function dec_digits :: "nat \<Rightarrow> string" where
  "dec_digits n =
     (if n < 10 then [digit_char n] else dec_digits (n div 10) @ [digit_char (n mod 10)])"
  by pat_completeness auto
termination
  by (relation "measure id") auto

declare dec_digits.simps [simp del]

definition String_of_int :: "int \<Rightarrow> string" where
  "String_of_int n =
     (if n < 0 then CHR ''-'' # dec_digits (nat (- n)) else dec_digits (nat n))"

text \<open>
  The wording of the specification, "a valid integer encoding": decimal digits after an
  optional minus sign.
\<close>

definition is_decimal_digit :: "char \<Rightarrow> bool" where
  "is_decimal_digit c = (c \<in> set ''0123456789'')"

definition integer_encoding :: "string \<Rightarrow> bool" where
  "integer_encoding s =
     (case s of
        [] \<Rightarrow> False
      | c # cs \<Rightarrow>
          if c = CHR ''-'' then cs \<noteq> [] \<and> list_all is_decimal_digit cs
          else list_all is_decimal_digit s)"

section \<open>What each block of the tick leaves alone, and what the loop does\<close>

lemmas constants =
  GRAVITY_def FLAP_STRENGTH_def PIPE_GAP_MIN_def PIPE_GAP_MAX_def PIPE_WIDTH_def
  PIPE_INTERVAL_MS_def SCROLL_SPEED_def MOUTH_SIZE_def GROUND_HEIGHT_def

lemmas tick_defs =
  update_def update_physics_def update_pipes_def update_spawn_def
  pipe_body_def rectsOverlap_def js_rem_def Let_def

lemma update_physics_frame:
  "canvas_width (update_physics w) = canvas_width w"
  "canvas_height (update_physics w) = canvas_height w"
  "mouthX (update_physics w) = mouthX w"
  "pipes (update_physics w) = pipes w"
  "lastPipeAt (update_physics w) = lastPipeAt w"
  "score (update_physics w) = score w"
  "best (update_physics w) = best w"
  "isRunning (update_physics w) = isRunning w"
  "lastTimestamp (update_physics w) = lastTimestamp w"
  "backgroundOffset (update_physics w) = backgroundOffset w"
  "storage_writes (update_physics w) = storage_writes w"
  by (simp_all add: update_physics_def Let_def)

lemma update_spawn_frame:
  "canvas_width (update_spawn dt r1 r2 w) = canvas_width w"
  "canvas_height (update_spawn dt r1 r2 w) = canvas_height w"
  "mouthY (update_spawn dt r1 r2 w) = mouthY w"
  "mouthX (update_spawn dt r1 r2 w) = mouthX w"
  "mouthVelY (update_spawn dt r1 r2 w) = mouthVelY w"
  "score (update_spawn dt r1 r2 w) = score w"
  "best (update_spawn dt r1 r2 w) = best w"
  "isRunning (update_spawn dt r1 r2 w) = isRunning w"
  "isGameOver (update_spawn dt r1 r2 w) = isGameOver w"
  "lastTimestamp (update_spawn dt r1 r2 w) = lastTimestamp w"
  "backgroundOffset (update_spawn dt r1 r2 w) = backgroundOffset w"
  "storage_writes (update_spawn dt r1 r2 w) = storage_writes w"
  by (simp_all add: update_spawn_def spawnPipe_def Let_def)

lemma pipe_body_frame:
  "canvas_width (pipe_body i w) = canvas_width w"
  "canvas_height (pipe_body i w) = canvas_height w"
  "mouthY (pipe_body i w) = mouthY w"
  "mouthX (pipe_body i w) = mouthX w"
  "mouthVelY (pipe_body i w) = mouthVelY w"
  "lastPipeAt (pipe_body i w) = lastPipeAt w"
  "isRunning (pipe_body i w) = isRunning w"
  "lastTimestamp (pipe_body i w) = lastTimestamp w"
  "backgroundOffset (pipe_body i w) = backgroundOffset w"
  by (simp_all add: pipe_body_def Let_def)

lemma pipes_loop_frame:
  "canvas_width (pipes_loop n w) = canvas_width w"
  "canvas_height (pipes_loop n w) = canvas_height w"
  "mouthY (pipes_loop n w) = mouthY w"
  "mouthX (pipes_loop n w) = mouthX w"
  "mouthVelY (pipes_loop n w) = mouthVelY w"
  "lastPipeAt (pipes_loop n w) = lastPipeAt w"
  "isRunning (pipes_loop n w) = isRunning w"
  "lastTimestamp (pipes_loop n w) = lastTimestamp w"
  "backgroundOffset (pipes_loop n w) = backgroundOffset w"
  by (induction n arbitrary: w; simp add: pipe_body_frame)+

lemma pipe_body_over: "isGameOver w \<Longrightarrow> isGameOver (pipe_body i w)"
  by (simp add: pipe_body_def Let_def)

lemma pipes_loop_over: "isGameOver w \<Longrightarrow> isGameOver (pipes_loop n w)"
  by (induction n arbitrary: w) (simp_all add: pipe_body_over)

lemma update_pipes_frame:
  "canvas_width (update_pipes w) = canvas_width w"
  "canvas_height (update_pipes w) = canvas_height w"
  "mouthY (update_pipes w) = mouthY w"
  "mouthX (update_pipes w) = mouthX w"
  "mouthVelY (update_pipes w) = mouthVelY w"
  "lastPipeAt (update_pipes w) = lastPipeAt w"
  "isRunning (update_pipes w) = isRunning w"
  "lastTimestamp (update_pipes w) = lastTimestamp w"
  by (simp_all add: update_pipes_def Let_def pipes_loop_frame)

lemma update_pipes_over: "isGameOver w \<Longrightarrow> isGameOver (update_pipes w)"
  by (simp add: update_pipes_def Let_def pipes_loop_over)

lemma pipe_body_pipes:
  assumes "i < length (pipes w)"
  shows "pipes (pipe_body i w) =
           take i (pipes w) @ (case tick_pipe (mouthX w) (pipes w ! i) of None \<Rightarrow> [] | Some q \<Rightarrow> [q])
             @ drop (Suc i) (pipes w)"
  using assms
  by (simp add: pipe_body_def Let_def tick_pipe_def advance_def offscreen_def crossing_def
      upd_conv_take_nth_drop)

lemma pipes_loop_pipes:
  "n \<le> length (pipes w) \<Longrightarrow>
     pipes (pipes_loop n w) =
       List.map_filter (tick_pipe (mouthX w)) (take n (pipes w)) @ drop n (pipes w)"
proof (induction n arbitrary: w)
  case 0
  then show ?case by (simp add: List.map_filter_simps)
next
  case (Suc n)
  let ?w1 = "pipe_body n w"
  have lt: "n < length (pipes w)" using Suc.prems by simp
  have p1: "pipes ?w1 = take n (pipes w) @
      (case tick_pipe (mouthX w) (pipes w ! n) of None \<Rightarrow> [] | Some q \<Rightarrow> [q]) @ drop (Suc n) (pipes w)"
    by (rule pipe_body_pipes [OF lt])
  have len: "n \<le> length (pipes ?w1)" using lt by (simp add: p1)
  have tk: "take n (pipes ?w1) = take n (pipes w)" using lt by (simp add: p1)
  have dr: "drop n (pipes ?w1) =
      (case tick_pipe (mouthX w) (pipes w ! n) of None \<Rightarrow> [] | Some q \<Rightarrow> [q]) @ drop (Suc n) (pipes w)"
    using lt by (simp add: p1)
  have "pipes (pipes_loop (Suc n) w) = pipes (pipes_loop n ?w1)" by simp
  also have "\<dots> = List.map_filter (tick_pipe (mouthX ?w1)) (take n (pipes ?w1)) @ drop n (pipes ?w1)"
    by (rule Suc.IH [OF len])
  also have "\<dots> = List.map_filter (tick_pipe (mouthX w)) (take (Suc n) (pipes w)) @ drop (Suc n) (pipes w)"
    using lt by (simp add: tk dr pipe_body_frame take_Suc_conv_app_nth map_filter_def split: option.splits)
  finally show ?case .
qed

lemma pipe_body_score:
  "score (pipe_body i w) = score w + (if flips (mouthX w) (pipes w ! i) then 1 else 0)"
  by (simp add: pipe_body_def Let_def flips_def advance_def offscreen_def crossing_def)

lemma pipe_body_best:
  "best (pipe_body i w) =
     (if flips (mouthX w) (pipes w ! i) \<and> best w < score w + 1 then score w + 1 else best w)"
  by (simp add: pipe_body_def Let_def flips_def advance_def offscreen_def crossing_def)

lemma pipe_body_writes:
  "storage_writes (pipe_body i w) =
     storage_writes w @
       (if flips (mouthX w) (pipes w ! i) \<and> best w < score w + 1 then [score w + 1] else [])"
  by (simp add: pipe_body_def Let_def flips_def advance_def offscreen_def crossing_def)

lemma pipes_loop_score:
  "n \<le> length (pipes w) \<Longrightarrow>
     score (pipes_loop n w) =
       score w + real (length (filter (flips (mouthX w)) (take n (pipes w))))"
proof (induction n arbitrary: w)
  case 0
  then show ?case by simp
next
  case (Suc n)
  let ?w1 = "pipe_body n w"
  have lt: "n < length (pipes w)" using Suc.prems by simp
  have p1: "pipes ?w1 = take n (pipes w) @
      (case tick_pipe (mouthX w) (pipes w ! n) of None \<Rightarrow> [] | Some q \<Rightarrow> [q]) @ drop (Suc n) (pipes w)"
    by (rule pipe_body_pipes [OF lt])
  have len: "n \<le> length (pipes ?w1)" using lt by (simp add: p1)
  have tk: "take n (pipes ?w1) = take n (pipes w)" using lt by (simp add: p1)
  have "score (pipes_loop (Suc n) w) = score (pipes_loop n ?w1)" by simp
  also have "\<dots> = score ?w1 + real (length (filter (flips (mouthX ?w1)) (take n (pipes ?w1))))"
    by (rule Suc.IH [OF len])
  also have "\<dots> = score w + real (length (filter (flips (mouthX w)) (take (Suc n) (pipes w))))"
    using lt by (simp add: tk pipe_body_frame pipe_body_score take_Suc_conv_app_nth)
  finally show ?case .
qed

lemma pipes_loop_best_writes:
  "score w \<le> score (pipes_loop n w) \<and>
   best w \<le> best (pipes_loop n w) \<and>
   length (storage_writes w) \<le> length (storage_writes (pipes_loop n w)) \<and>
   (length (storage_writes w) < length (storage_writes (pipes_loop n w)) \<longleftrightarrow>
      score w < score (pipes_loop n w) \<and> best w < score (pipes_loop n w)) \<and>
   best (pipes_loop n w) =
     (if score w < score (pipes_loop n w) then max (best w) (score (pipes_loop n w)) else best w)"
proof (induction n arbitrary: w)
  case 0
  then show ?case by simp
next
  case (Suc n)
  let ?w1 = "pipe_body n w"
  note IH = Suc.IH [of ?w1]
  show ?case
    using IH
    by (simp add: pipe_body_score pipe_body_best pipe_body_writes split: if_splits)
qed

section \<open>The tick as a whole\<close>

lemma update_pipes_pipes:
  "pipes (update_pipes w) = List.map_filter (tick_pipe (mouthX w)) (pipes w)"
  by (simp add: update_pipes_def Let_def pipes_loop_pipes)

lemma update_pipes_score:
  "score (update_pipes w) = score w + real (length (filter (flips (mouthX w)) (pipes w)))"
  by (simp add: update_pipes_def Let_def pipes_loop_score)

lemma update_spawn_pipes:
  "take (length (pipes w)) (pipes (update_spawn dt r1 r2 w)) = pipes w"
  by (simp add: update_spawn_def spawnPipe_def Let_def)

lemma update_alive_pipes:
  assumes "\<not> isGameOver w"
  shows "take (length (List.map_filter (tick_pipe (mouthX w)) (pipes w))) (pipes (update dt r1 r2 w)) =
           List.map_filter (tick_pipe (mouthX w)) (pipes w)"
proof -
  have "pipes (update_pipes (update_physics w)) = List.map_filter (tick_pipe (mouthX w)) (pipes w)"
    by (simp add: update_pipes_pipes update_physics_frame)
  then show ?thesis
    using assms update_spawn_pipes [of "update_pipes (update_physics w)" dt r1 r2]
    by (simp add: update_def)
qed

lemma update_alive_score:
  assumes "\<not> isGameOver w"
  shows "score (update dt r1 r2 w) = score w + real (length (filter (flips (mouthX w)) (pipes w)))"
  using assms
  by (simp add: update_def update_spawn_frame update_pipes_score update_physics_frame)

lemma update_score_mono: "score w \<le> score (update dt r1 r2 w)"
  by (cases "isGameOver w") (simp_all add: update_alive_score, simp add: update_def)

section \<open>One obstacle through the ticks\<close>

lemma tick_pipe_passed:
  "tick_pipe mx p = Some q \<Longrightarrow> passed q = (passed p \<or> flips mx p)"
  by (auto simp: tick_pipe_def flips_def crossing_def advance_def Let_def split: if_splits)

lemma tick_pipe_geometry:
  "tick_pipe mx p = Some q \<Longrightarrow>
     pipe_x q = pipe_x p - SCROLL_SPEED \<and> width q = width p \<and>
     topHeight q = topHeight p \<and> gap q = gap p"
  by (auto simp: tick_pipe_def advance_def Let_def split: if_splits)

lemma tick_pipe_None:
  "tick_pipe mx p = None \<longleftrightarrow> pipe_x p - SCROLL_SPEED + width p < - 10"
  by (simp add: tick_pipe_def advance_def offscreen_def Let_def)

lemma flips_iff:
  "flips mx p \<longleftrightarrow>
     \<not> passed p \<and> tick_pipe mx p \<noteq> None \<and>
     pipe_x p - SCROLL_SPEED + width p / 2 < mx + MOUTH_SIZE / 2"
  by (auto simp: flips_def tick_pipe_def crossing_def advance_def offscreen_def Let_def)

lemma pipe_after_geometry:
  "pipe_after n mx p = Some q \<Longrightarrow>
     pipe_x q = pipe_x p - real n * SCROLL_SPEED \<and> width q = width p \<and>
     topHeight q = topHeight p \<and> gap q = gap p"
proof (induction n arbitrary: q)
  case 0
  then show ?case by simp
next
  case (Suc n)
  from Suc.prems obtain r where r: "pipe_after n mx p = Some r" and t: "tick_pipe mx r = Some q"
    by (auto split: option.splits)
  have e: "real (Suc n) * SCROLL_SPEED = real n * SCROLL_SPEED + SCROLL_SPEED"
    by (simp add: distrib_right)
  have a: "pipe_x r = pipe_x p - real n * SCROLL_SPEED" "width r = width p"
    "topHeight r = topHeight p" "gap r = gap p"
    using Suc.IH [OF r] by simp_all
  have b: "pipe_x q = pipe_x r - SCROLL_SPEED" "width q = width r"
    "topHeight q = topHeight r" "gap q = gap r"
    using tick_pipe_geometry [OF t] by simp_all
  have "pipe_x q = pipe_x p - real (Suc n) * SCROLL_SPEED"
    using a(1) b(1) e by linarith
  then show ?case
    using a b by simp
qed

lemma pipe_after_earlier:
  "pipe_after (n + k) mx p = Some q \<Longrightarrow> \<exists>r. pipe_after n mx p = Some r"
  by (induction k arbitrary: q) (auto split: option.splits)

lemma pipe_after_passed_mono:
  "pipe_after n mx p = Some r \<Longrightarrow> passed r \<Longrightarrow> pipe_after (n + k) mx p = Some q \<Longrightarrow> passed q"
proof (induction k arbitrary: q)
  case 0
  then show ?case by simp
next
  case (Suc k)
  from Suc.prems(3) obtain s where s: "pipe_after (n + k) mx p = Some s" and t: "tick_pipe mx s = Some q"
    by (auto split: option.splits)
  from Suc.IH [OF Suc.prems(1,2) s] tick_pipe_passed [OF t] show ?case by simp
qed

lemma flip_then_passed:
  assumes "pipe_after m mx p = Some q" "flips mx q"
  shows "\<exists>r. pipe_after (Suc m) mx p = Some r \<and> passed r"
  using assms
  by (auto simp: flips_def tick_pipe_def Let_def)

lemma flips_not_passed: "flips mx q \<Longrightarrow> \<not> passed q"
  by (simp add: flips_def crossing_def advance_def)

lemma flip_order:
  assumes m: "pipe_after m mx p = Some q" "flips mx q"
    and n: "pipe_after n mx p = Some q'" "flips mx q'"
  shows "\<not> m < n"
proof
  assume "m < n"
  then obtain k where k: "n = Suc m + k" by (metis less_iff_Suc_add add_Suc)
  from flip_then_passed [OF m] obtain r where r: "pipe_after (Suc m) mx p = Some r" "passed r"
    by blast
  from pipe_after_passed_mono [OF r] n(1) have "passed q'" by (simp add: k)
  with flips_not_passed [OF n(2)] show False by simp
qed

lemma flip_unique:
  assumes "pipe_after m mx p = Some q" "flips mx q" "pipe_after n mx p = Some q'" "flips mx q'"
  shows "m = n"
  using flip_order [OF assms] flip_order [OF assms(3,4) assms(1,2)] by simp

lemma flip_first:
  assumes n: "pipe_after n mx p = Some q" "flips mx q" and k: "1 \<le> k" "k \<le> n"
  shows "\<not> pipe_x p - real k * SCROLL_SPEED + width p / 2 < mx + MOUTH_SIZE / 2"
proof
  assume less: "pipe_x p - real k * SCROLL_SPEED + width p / 2 < mx + MOUTH_SIZE / 2"
  from k obtain j where j: "k = Suc j" by (cases k) auto
  from k obtain d where d: "n = k + d" by (metis le_iff_add)
  from pipe_after_earlier [of k d mx p q] n(1) obtain r where r: "pipe_after k mx p = Some r"
    by (auto simp: d)
  then obtain s where s: "pipe_after j mx p = Some s" and t: "tick_pipe mx s = Some r"
    by (auto simp: j split: option.splits)
  have np: "\<not> passed r"
    using pipe_after_passed_mono [OF r _ n(1) [unfolded d]] flips_not_passed [OF n(2)] by blast
  then have nf: "\<not> flips mx s" and ns: "\<not> passed s"
    using tick_pipe_passed [OF t] by simp_all
  have g: "pipe_x s = pipe_x p - real j * SCROLL_SPEED" "width s = width p"
    using pipe_after_geometry [OF s] by simp_all
  have e: "real k * SCROLL_SPEED = real j * SCROLL_SPEED + SCROLL_SPEED"
    by (simp add: j distrib_right)
  have "pipe_x s - SCROLL_SPEED + width s / 2 < mx + MOUTH_SIZE / 2"
    using less g e by linarith
  then have "flips mx s"
    using ns t by (simp add: flips_iff)
  with nf show False by simp
qed


lemma pipe_after_None:
  "pipe_after n mx p = None \<longleftrightarrow>
     (\<exists>k. 1 \<le> k \<and> k \<le> n \<and> pipe_x p - real k * SCROLL_SPEED + width p < - 10)"
proof (induction n)
  case 0
  then show ?case by simp
next
  case (Suc n)
  show ?case
  proof (cases "pipe_after n mx p")
    case None
    then obtain k where "1 \<le> k" "k \<le> n" "pipe_x p - real k * SCROLL_SPEED + width p < - 10"
      using Suc.IH by blast
    then have "\<exists>k. 1 \<le> k \<and> k \<le> Suc n \<and> pipe_x p - real k * SCROLL_SPEED + width p < - 10"
      using le_Suc_eq by blast
    then show ?thesis using None by simp
  next
    case (Some q)
    have g: "pipe_x q = pipe_x p - real n * SCROLL_SPEED" "width q = width p"
      using pipe_after_geometry [OF Some] by simp_all
    have e: "real (Suc n) * SCROLL_SPEED = real n * SCROLL_SPEED + SCROLL_SPEED"
      by (simp add: distrib_right)
    have none_before: "\<not> (\<exists>k. 1 \<le> k \<and> k \<le> n \<and> pipe_x p - real k * SCROLL_SPEED + width p < - 10)"
      using Suc.IH Some by simp
    have "pipe_after (Suc n) mx p = None \<longleftrightarrow> pipe_x q - SCROLL_SPEED + width q < - 10"
      using Some by (simp add: tick_pipe_None)
    also have "\<dots> \<longleftrightarrow> pipe_x p - real (Suc n) * SCROLL_SPEED + width p < - 10"
      using g e by auto
    also have "\<dots> \<longleftrightarrow>
        (\<exists>k. 1 \<le> k \<and> k \<le> Suc n \<and> pipe_x p - real k * SCROLL_SPEED + width p < - 10)"
      using none_before le_Suc_eq by (metis le_add1 plus_1_eq_Suc)
    finally show ?thesis .
  qed
qed

lemma scenario_pipe:
  assumes "pipe_x p = 0" "width p = PIPE_WIDTH"
  shows "(\<exists>q. pipe_after 30 mx p = Some q \<and> pipe_x q = - 78) \<and> pipe_after 31 mx p = None"
proof -
  have "\<not> (\<exists>k. 1 \<le> k \<and> k \<le> 30 \<and> pipe_x p - real k * SCROLL_SPEED + width p < - 10)"
  proof
    assume "\<exists>k. 1 \<le> k \<and> k \<le> 30 \<and> pipe_x p - real k * SCROLL_SPEED + width p < - 10"
    then obtain k :: nat where k: "k \<le> 30" "pipe_x p - real k * SCROLL_SPEED + width p < - 10"
      by blast
    from k(1) have "real k \<le> 30" by simp
    with k(2) assms show False by (simp add: constants)
  qed
  then obtain q where q: "pipe_after 30 mx p = Some q"
    using pipe_after_None [of 30 mx p] by (cases "pipe_after 30 mx p") auto
  have "pipe_x q = - 78"
    using pipe_after_geometry [OF q] assms by (simp add: constants)
  moreover have "pipe_after 31 mx p = None"
    using assms pipe_after_None [of 31 mx p] by (auto simp: constants intro!: exI [of _ 31])
  ultimately show ?thesis using q by simp
qed

lemma scenario_removed_at_31:
  "pipes (run (replicate 31 (Tick 16 0 0)) scenario_world) = []"
  by (simp add: numeral_eq_Suc scenario_world_def fresh_world_def tick_defs constants)

section \<open>The obstacles through a run of ticks\<close>

lemma pipe_after_front:
  "pipe_after (Suc n) mx p =
     (case tick_pipe mx p of None \<Rightarrow> None | Some q \<Rightarrow> pipe_after n mx q)"
proof (induction n)
  case 0
  then show ?case by (simp split: option.splits)
next
  case (Suc n)
  have "pipe_after (Suc (Suc n)) mx p =
      (case pipe_after (Suc n) mx p of None \<Rightarrow> None | Some q \<Rightarrow> tick_pipe mx q)"
    by simp
  also have "\<dots> = (case tick_pipe mx p of None \<Rightarrow> None | Some q \<Rightarrow> pipe_after (Suc n) mx q)"
    by (simp only: Suc.IH) (simp split: option.splits)
  finally show ?case .
qed

lemma map_filter_append:
  "List.map_filter f (xs @ ys) = List.map_filter f xs @ List.map_filter f ys"
  by (simp add: List.map_filter_def)

lemma map_filter_map_filter:
  "List.map_filter f (List.map_filter g xs) =
     List.map_filter (\<lambda>x. case g x of None \<Rightarrow> None | Some y \<Rightarrow> f y) xs"
  by (induction xs) (simp_all add: List.map_filter_simps split: option.splits)

lemma update_mouthX: "mouthX (update dt r1 r2 w) = mouthX w"
  by (simp add: update_def update_spawn_frame update_pipes_frame update_physics_frame)

lemma update_alive_pipes_append:
  assumes "\<not> isGameOver w"
  shows "\<exists>new. pipes (update dt r1 r2 w) =
           List.map_filter (tick_pipe (mouthX w)) (pipes w) @ new"
  using update_alive_pipes [OF assms, of dt r1 r2]
  by (metis append_take_drop_id)

lemma run_alive_pipes:
  "alive_ticks es w \<Longrightarrow>
     \<exists>new. pipes (run es w) =
       List.map_filter (pipe_after (length es) (mouthX w)) (pipes w) @ new"
proof (induction es arbitrary: w)
  case Nil
  then show ?case by (simp add: List.map_filter_def)
next
  case (Cons e es)
  from Cons.prems obtain dt r1 r2 where e: "e = Tick dt r1 r2"
    by (cases e) simp_all
  let ?w1 = "update dt r1 r2 w"
  let ?mx = "mouthX w"
  have alive: "\<not> isGameOver w" and rest: "alive_ticks es ?w1"
    using Cons.prems by (simp_all add: e)
  obtain new1 where n1: "pipes ?w1 = List.map_filter (tick_pipe ?mx) (pipes w) @ new1"
    using update_alive_pipes_append [OF alive] by blast
  obtain new2 where n2: "pipes (run es ?w1) =
      List.map_filter (pipe_after (length es) (mouthX ?w1)) (pipes ?w1) @ new2"
    using Cons.IH [OF rest] by blast
  have "pipes (run (e # es) w) =
      List.map_filter (pipe_after (length es) ?mx) (List.map_filter (tick_pipe ?mx) (pipes w)) @
      (List.map_filter (pipe_after (length es) ?mx) new1 @ new2)"
    using n2 by (simp add: e update_mouthX n1 map_filter_append)
  also have "List.map_filter (pipe_after (length es) ?mx) (List.map_filter (tick_pipe ?mx) (pipes w)) =
      List.map_filter (pipe_after (length (e # es)) ?mx) (pipes w)"
    by (simp add: map_filter_map_filter pipe_after_front [abs_def])
  finally show ?case by blast
qed

lemma run_ticks_score_mono:
  "\<forall>e \<in> set es. is_tick e \<Longrightarrow> score w \<le> score (run es w)"
proof (induction es arbitrary: w)
  case Nil
  then show ?case by simp
next
  case (Cons e es)
  from Cons.prems obtain dt r1 r2 where e: "e = Tick dt r1 r2"
    by (cases e) simp_all
  have "score w \<le> score (update dt r1 r2 w)" by (rule update_score_mono)
  also have "\<dots> \<le> score (run es (update dt r1 r2 w))"
    using Cons.prems by (intro Cons.IH) simp
  finally show ?case by (simp add: e)
qed

section \<open>Score, best score and the writes to the storage\<close>

lemma update_pipes_best_writes:
  "score w \<le> score (update_pipes w) \<and>
   best w \<le> best (update_pipes w) \<and>
   length (storage_writes w) \<le> length (storage_writes (update_pipes w)) \<and>
   (length (storage_writes w) < length (storage_writes (update_pipes w)) \<longleftrightarrow>
      score w < score (update_pipes w) \<and> best w < score (update_pipes w)) \<and>
   best (update_pipes w) =
     (if score w < score (update_pipes w) then max (best w) (score (update_pipes w)) else best w)"
  using pipes_loop_best_writes
    [of "w\<lparr>backgroundOffset := js_rem (backgroundOffset w + SCROLL_SPEED) (canvas_width w)\<rparr>"
        "length (pipes w)"]
  by (simp add: update_pipes_def Let_def)

lemma update_best_writes:
  "score w \<le> score (update dt r1 r2 w) \<and>
   best w \<le> best (update dt r1 r2 w) \<and>
   length (storage_writes w) \<le> length (storage_writes (update dt r1 r2 w)) \<and>
   (length (storage_writes w) < length (storage_writes (update dt r1 r2 w)) \<longleftrightarrow>
      score w < score (update dt r1 r2 w) \<and> best w < score (update dt r1 r2 w)) \<and>
   best (update dt r1 r2 w) =
     (if score w < score (update dt r1 r2 w) then max (best w) (score (update dt r1 r2 w))
      else best w)"
proof (cases "isGameOver w")
  case True
  then show ?thesis by (simp add: update_def)
next
  case False
  show ?thesis
    using False update_pipes_best_writes [of "update_physics w"]
    by (simp add: update_def update_spawn_frame update_physics_frame)
qed

lemma flap_best:
  "best (flap now w) = best w \<and> storage_writes (flap now w) = storage_writes w \<and>
   score (flap now w) = (if isGameOver w then 0 else score w)"
  by (simp add: flap_def resetGame_def Let_def)

lemma step_best_mono: "best w \<le> best (step e w)"
  by (cases e) (simp_all add: update_best_writes flap_best)

lemma run_best_mono: "best w \<le> best (run es w)"
proof (induction es arbitrary: w)
  case Nil
  then show ?case by simp
next
  case (Cons e es)
  have "best w \<le> best (step e w)" by (rule step_best_mono)
  also have "\<dots> \<le> best (run es (step e w))" by (rule Cons.IH)
  finally show ?case by simp
qed

lemma step_best_inv:
  assumes "0 \<le> best w" "score w \<le> best w"
  shows "best (step e w) = max (best w) (score (step e w)) \<and>
         0 \<le> best (step e w) \<and> score (step e w) \<le> best (step e w)"
proof (cases e)
  case (Tick dt r1 r2)
  show ?thesis
    using assms update_best_writes [of w dt r1 r2]
    by (auto simp: Tick max_def split: if_splits)
next
  case (Flap now)
  show ?thesis
    using assms flap_best [of now w] by (simp add: Flap max_def)
qed

lemma max_score_ge: "score w \<le> max_score es w"
  by (cases es) simp_all

lemma run_best_max:
  "0 \<le> best w \<Longrightarrow> score w \<le> best w \<Longrightarrow> best (run es w) = max (best w) (max_score es w)"
proof (induction es arbitrary: w)
  case Nil
  then show ?case by (simp add: max_def)
next
  case (Cons e es)
  note inv = step_best_inv [OF Cons.prems, of e]
  have "best (run (e # es) w) = best (run es (step e w))" by simp
  also have "\<dots> = max (best (step e w)) (max_score es (step e w))"
    using inv by (intro Cons.IH) simp_all
  also have "\<dots> = max (best w) (max_score (e # es) w)"
    using inv Cons.prems max_score_ge [of "step e w" es] by (simp add: max_def)
  finally show ?case .
qed

lemma run_best_inv:
  "0 \<le> best w \<Longrightarrow> score w \<le> best w \<Longrightarrow>
     0 \<le> best (run es w) \<and> score (run es w) \<le> best (run es w)"
proof (induction es arbitrary: w)
  case Nil
  then show ?case by simp
next
  case (Cons e es)
  note inv = step_best_inv [OF Cons.prems, of e]
  have "0 \<le> best (run es (step e w)) \<and> score (run es (step e w)) \<le> best (run es (step e w))"
    using inv by (intro Cons.IH) simp_all
  then show ?case by simp
qed

section \<open>Decimal digits and the conversion of strings\<close>

lemma below_ten:
  fixes d :: nat
  shows "d < 10 \<Longrightarrow>
    d = 0 \<or> d = 1 \<or> d = 2 \<or> d = 3 \<or> d = 4 \<or> d = 5 \<or> d = 6 \<or> d = 7 \<or> d = 8 \<or> d = 9"
  by arith

lemma digit_of_digit_char: "d < 10 \<Longrightarrow> digit_of 10 (digit_char d) = Some d"
  by (drule below_ten) (elim disjE; simp add: digit_of_def digit_char_def)

lemma is_decimal_digit_digit_char: "d < 10 \<Longrightarrow> is_decimal_digit (digit_char d)"
  by (drule below_ten) (elim disjE; simp add: is_decimal_digit_def digit_char_def)

lemma digits_acc_snoc:
  "digits_acc r acc (xs @ [c]) =
     (case digits_acc r acc xs of
        None \<Rightarrow> None
      | Some a \<Rightarrow> (case digit_of r c of None \<Rightarrow> None | Some d \<Rightarrow> Some (a * r + d)))"
  by (induction xs arbitrary: acc) (simp_all split: option.splits)

lemma digits_acc_dec_digits: "digits_acc 10 0 (dec_digits n) = Some n"
proof (induction n rule: dec_digits.induct)
  case (1 n)
  show ?case
  proof (cases "n < 10")
    case True
    then show ?thesis
      by (subst dec_digits.simps) (simp add: digit_of_digit_char)
  next
    case False
    have m: "n mod 10 < 10" by simp
    have "digits_acc 10 0 (dec_digits n) =
        digits_acc 10 0 (dec_digits (n div 10) @ [digit_char (n mod 10)])"
      using False by (subst dec_digits.simps) simp
    also have "\<dots> = Some (n div 10 * 10 + n mod 10)"
      using 1 [OF False] by (simp add: digits_acc_snoc digit_of_digit_char [OF m])
    finally show ?thesis by simp
  qed
qed

lemma dec_digits_is_decimal_digit: "list_all is_decimal_digit (dec_digits n)"
proof (induction n rule: dec_digits.induct)
  case (1 n)
  show ?case
  proof (cases "n < 10")
    case True
    then show ?thesis by (subst dec_digits.simps) (simp add: is_decimal_digit_digit_char)
  next
    case False
    have m: "n mod 10 < 10" by simp
    show ?thesis
      using False 1 [OF False] by (subst dec_digits.simps) (simp add: is_decimal_digit_digit_char [OF m])
  qed
qed

lemma dec_digits_not_Nil: "dec_digits n \<noteq> []"
  by (subst dec_digits.simps) simp

lemma is_decimal_digit_facts:
  assumes "is_decimal_digit c"
  shows "\<not> is_space c" "\<not> is_exp c" "c \<noteq> CHR ''.''" "c \<noteq> CHR ''+''" "c \<noteq> CHR ''-''"
    "c \<noteq> CHR ''x''" "c \<noteq> CHR ''X''" "c \<noteq> CHR ''o''" "c \<noteq> CHR ''O''"
    "c \<noteq> CHR ''b''" "c \<noteq> CHR ''B''" "c \<noteq> CHR ''I''"
  using assms by (auto simp: is_decimal_digit_def is_space_def is_exp_def)

lemma trim_id:
  assumes "s \<noteq> []" "\<not> is_space (hd s)" "\<not> is_space (last s)"
  shows "trim s = s"
proof -
  have 1: "dropWhile is_space s = s"
    using assms by (simp add: dropWhile_eq_self_iff)
  have 2: "dropWhile is_space (rev s) = rev s"
    using assms by (simp add: dropWhile_eq_self_iff hd_rev)
  show ?thesis by (simp add: trim_def 1 2)
qed

lemma list_all_hd_last:
  "s \<noteq> [] \<Longrightarrow> list_all P s \<Longrightarrow> P (hd s) \<and> P (last s)"
  by (cases s) (auto simp: list_all_iff)

lemma unsigned_decimal_digits:
  assumes d: "list_all is_decimal_digit s" and v: "digits_acc 10 0 s = Some n" and ne: "s \<noteq> []"
  shows "unsigned_decimal s = Num (real n)"
proof -
  have all: "\<And>c. c \<in> set s \<Longrightarrow> is_decimal_digit c" using d by (simp add: list_all_iff)
  have "hd s \<noteq> CHR ''I''" using list_all_hd_last [OF ne d] is_decimal_digit_facts by blast
  then have inf: "s \<noteq> ''Infinity''" by auto
  have t1: "takeWhile (\<lambda>c. \<not> is_exp c) s = s"
    using all is_decimal_digit_facts(2) by (simp add: takeWhile_eq_all_conv)
  have d1: "dropWhile (\<lambda>c. \<not> is_exp c) s = []"
    using all is_decimal_digit_facts(2) by (simp add: dropWhile_eq_Nil_conv)
  have t2: "takeWhile (\<lambda>c. c \<noteq> CHR ''.'') s = s"
    using all is_decimal_digit_facts(3) by (simp add: takeWhile_eq_all_conv)
  have d2: "dropWhile (\<lambda>c. c \<noteq> CHR ''.'') s = []"
    using all is_decimal_digit_facts(3) by (simp add: dropWhile_eq_Nil_conv)
  have m: "mantissa s = Some (real n)"
    using ne v by (simp add: mantissa_def t2 d2 digits_value_def)
  show ?thesis
    using inf by (simp add: unsigned_decimal_def t1 d1 m)
qed

lemma radix_prefix_digits:
  assumes "list_all is_decimal_digit s"
  shows "radix_prefix s = None"
proof (cases s)
  case Nil
  then show ?thesis by (simp add: radix_prefix_def)
next
  case (Cons c0 t)
  show ?thesis
  proof (cases t)
    case Nil
    then show ?thesis using Cons by (simp add: radix_prefix_def)
  next
    case (Cons c1 ds)
    have "is_decimal_digit c1" using assms \<open>s = c0 # t\<close> Cons by simp
    from is_decimal_digit_facts [OF this] show ?thesis
      using \<open>s = c0 # t\<close> Cons by (simp add: radix_prefix_def)
  qed
qed

lemma StringToNumber_digits:
  assumes d: "list_all is_decimal_digit s" and v: "digits_acc 10 0 s = Some n" and ne: "s \<noteq> []"
  shows "StringToNumber s = Num (real n)"
proof -
  have hl: "is_decimal_digit (hd s)" "is_decimal_digit (last s)" using list_all_hd_last [OF ne d] by simp_all
  have tr: "trim s = s"
    using ne hl is_decimal_digit_facts(1) by (intro trim_id) simp_all
  have sg: "hd s \<noteq> CHR ''+''" "hd s \<noteq> CHR ''-''"
    using hl(1) is_decimal_digit_facts by blast+
  show ?thesis
    using ne sg
    by (simp add: StringToNumber_def tr radix_prefix_digits [OF d] unsigned_decimal_digits [OF d v ne])
qed

lemma StringToNumber_minus_digits:
  assumes d: "list_all is_decimal_digit s" and v: "digits_acc 10 0 s = Some n" and ne: "s \<noteq> []"
  shows "StringToNumber (CHR ''-'' # s) = Num (- real n)"
proof -
  have hl: "is_decimal_digit (last s)" using list_all_hd_last [OF ne d] by simp
  have sp: "\<not> is_space (CHR ''-'')" by (simp add: is_space_def)
  have tr: "trim (CHR ''-'' # s) = CHR ''-'' # s"
    using ne hl is_decimal_digit_facts(1) sp by (intro trim_id) simp_all
  have rp: "radix_prefix (CHR ''-'' # s) = None"
    by (simp add: radix_prefix_def split: list.splits)
  show ?thesis
    by (simp add: StringToNumber_def tr rp unsigned_decimal_digits [OF d v ne])
qed

lemma initial_best_String_of_int:
  "initial_best (Some (String_of_int n)) = Num (real_of_int n)"
proof (cases "n < 0")
  case True
  have "StringToNumber (CHR ''-'' # dec_digits (nat (- n))) = Num (- real (nat (- n)))"
    by (rule StringToNumber_minus_digits [OF dec_digits_is_decimal_digit digits_acc_dec_digits dec_digits_not_Nil])
  then show ?thesis
    using True by (simp add: initial_best_def String_of_int_def)
next
  case False
  have "StringToNumber (dec_digits (nat n)) = Num (real (nat n))"
    by (rule StringToNumber_digits [OF dec_digits_is_decimal_digit digits_acc_dec_digits dec_digits_not_Nil])
  then show ?thesis
    using False by (simp add: initial_best_def String_of_int_def dec_digits_not_Nil)
qed

section \<open>Collision predicate\<close>

text \<open>
  C9. For every pair of axis-aligned rectangles A and B, the overlap test gives the same
  answer for (A, B) and for (B, A).
\<close>

theorem rectsOverlap_commute:
  "rectsOverlap ax ay aw ah bx by bw bh = rectsOverlap bx by bw bh ax ay aw ah"
  by (auto simp: rectsOverlap_def)

text \<open>
  C6. For two boxes (of positive width and height) the test is true exactly when the
  common part of the boxes has positive length on the horizontal and on the vertical axis;
  and for any two boxes that touch along an edge (the right edge of one is the left edge
  of the other, or the bottom edge of one is the top edge of the other) it is false.
\<close>

theorem rectsOverlap_strict:
  "(0 < aw \<and> 0 < ah \<and> 0 < bw \<and> 0 < bh \<longrightarrow>
      rectsOverlap ax ay aw ah bx by bw bh = positive_overlap ax ay aw ah bx by bw bh) \<and>
   (ax + aw = bx \<or> bx + bw = ax \<or> ay + ah = by \<or> by + bh = ay \<longrightarrow>
      \<not> rectsOverlap ax ay aw ah bx by bw bh)"
  by (auto simp: rectsOverlap_def positive_overlap_def overlap_extent_def)

theorem rectsOverlap_strict_witness:
  "rectsOverlap 0 0 32 32 20 20 70 40 \<and> positive_overlap 0 0 32 32 20 20 70 40 \<and>
   \<not> rectsOverlap 0 0 32 32 32 0 70 40 \<and> \<not> rectsOverlap 0 0 32 32 0 32 70 40"
  using rectsOverlap_strict [of 32 32 70 40 0 0 20 20]
    rectsOverlap_strict [of 32 32 70 40 0 0 32 0]
    rectsOverlap_strict [of 32 32 70 40 0 0 0 32]
  by (simp add: rectsOverlap_def)

section \<open>The physics step\<close>

text \<open>
  C1. In a tick that starts with the game not over, \<open>update\<close> runs its three blocks in
  order, and the first one adds the gravity constant to the vertical velocity once, whatever
  the frame delta is, adds the new velocity to the vertical position, and then clamps: a
  position above the ceiling becomes 0 with velocity 0, and this clamp does not end the
  game; a position below the ground limit (canvas height minus ground height minus player
  size) becomes the ground limit and ends the game. The blocks that follow change neither
  the position nor the velocity, and never clear the game-over flag.
\<close>

theorem physics_step:
  fixes w :: world and dt r1 r2 :: real
  defines "v1 \<equiv> mouthVelY w + GRAVITY"
  defines "y1 \<equiv> mouthY w + v1"
  defines "y2 \<equiv> (if y1 < 0 then 0 else y1)"
  defines "groundLimit \<equiv> canvas_height w - GROUND_HEIGHT - MOUTH_SIZE"
  assumes alive: "\<not> isGameOver w"
  shows "update dt r1 r2 w = update_spawn dt r1 r2 (update_pipes (update_physics w)) \<and>
         mouthVelY (update dt r1 r2 w) = (if y1 < 0 then 0 else v1) \<and>
         mouthY (update dt r1 r2 w) = (if y2 > groundLimit then groundLimit else y2) \<and>
         isGameOver (update_physics w) = (y2 > groundLimit) \<and>
         (y2 > groundLimit \<longrightarrow> isGameOver (update dt r1 r2 w))"
proof -
  have u: "update dt r1 r2 w = update_spawn dt r1 r2 (update_pipes (update_physics w))"
    using alive by (simp add: update_def)
  have v: "mouthVelY (update_physics w) = (if y1 < 0 then 0 else v1)"
    by (simp add: update_physics_def Let_def v1_def y1_def)
  have y: "mouthY (update_physics w) = (if y2 > groundLimit then groundLimit else y2)"
    by (simp add: update_physics_def Let_def v1_def y1_def y2_def groundLimit_def)
  have g: "isGameOver (update_physics w) = (y2 > groundLimit)"
    using alive by (simp add: update_physics_def Let_def v1_def y1_def y2_def groundLimit_def)
  have o: "y2 > groundLimit \<longrightarrow> isGameOver (update dt r1 r2 w)"
    using g by (simp add: u update_spawn_frame update_pipes_over)
  show ?thesis
    using u v y g o by (simp add: update_spawn_frame update_pipes_frame)
qed

text \<open>
  The theorem at three states of a 480 by 720 canvas (ground limit 608): a free fall from
  the centre, a rise through the ceiling, and a fall through the ground limit.
\<close>

theorem physics_step_witness:
  "mouthVelY (update 16 0 0 (fresh_world 480 720 0)) = 0.45 \<and>
   mouthY (update 16 0 0 (fresh_world 480 720 0)) = 360.45 \<and>
   \<not> isGameOver (update_physics (fresh_world 480 720 0)) \<and>
   mouthVelY (update 16 0 0 ((fresh_world 480 720 0)\<lparr>mouthY := 2, mouthVelY := - 7.5\<rparr>)) = 0 \<and>
   mouthY (update 16 0 0 ((fresh_world 480 720 0)\<lparr>mouthY := 2, mouthVelY := - 7.5\<rparr>)) = 0 \<and>
   \<not> isGameOver (update_physics ((fresh_world 480 720 0)\<lparr>mouthY := 2, mouthVelY := - 7.5\<rparr>)) \<and>
   mouthVelY (update 16 0 0 ((fresh_world 480 720 0)\<lparr>mouthY := 607, mouthVelY := 5\<rparr>)) = 5.45 \<and>
   mouthY (update 16 0 0 ((fresh_world 480 720 0)\<lparr>mouthY := 607, mouthVelY := 5\<rparr>)) = 608 \<and>
   isGameOver (update 16 0 0 ((fresh_world 480 720 0)\<lparr>mouthY := 607, mouthVelY := 5\<rparr>))"
proof -
  have a1: "\<not> isGameOver (fresh_world 480 720 0)"
    by (simp add: fresh_world_def)
  have a2: "\<not> isGameOver ((fresh_world 480 720 0)\<lparr>mouthY := 2, mouthVelY := - 7.5\<rparr>)"
    by (simp add: fresh_world_def)
  have a3: "\<not> isGameOver ((fresh_world 480 720 0)\<lparr>mouthY := 607, mouthVelY := 5\<rparr>)"
    by (simp add: fresh_world_def)
  note i1 = physics_step [OF a1, of 16 0 0, THEN conjunct2]
  note i2 = physics_step [OF a2, of 16 0 0, THEN conjunct2]
  note i3 = physics_step [OF a3, of 16 0 0, THEN conjunct2]
  show ?thesis
    using i1 i2 i3 by (simp add: fresh_world_def constants)
qed

section \<open>The frozen world\<close>

text \<open>
  C8. For every frame delta, a tick that starts with the game over changes nothing: the
  state after \<open>update\<close> is the state before it, with the player, the obstacles, the score,
  the best score, the spawn timer and the background offset as they were (a frame of the
  loop changes only its own timestamp). Hence the game stays over through any number of
  ticks, until the activate input resets it.
\<close>

theorem update_game_over:
  "isGameOver w \<longrightarrow>
     update dt r1 r2 w = w \<and>
     gameLoop ts r1 r2 w = w\<lparr>lastTimestamp := ts\<rparr> \<and>
     ((\<forall>e \<in> set es. is_tick e) \<longrightarrow> run es w = w \<and> isGameOver (run es w))"
proof
  assume over: "isGameOver w"
  have "(\<forall>e \<in> set es. is_tick e) \<longrightarrow> run es w = w"
  proof (induction es)
    case Nil
    then show ?case by simp
  next
    case (Cons e es)
    then show ?case using over by (cases e) (simp_all add: update_def)
  qed
  then show "update dt r1 r2 w = w \<and> gameLoop ts r1 r2 w = w\<lparr>lastTimestamp := ts\<rparr> \<and>
     ((\<forall>e \<in> set es. is_tick e) \<longrightarrow> run es w = w \<and> isGameOver (run es w))"
    using over by (simp add: update_def gameLoop_def Let_def)
qed

theorem update_game_over_witness:
  "update 16 0 0 ((fresh_world 480 720 3)\<lparr>isGameOver := True\<rparr>) =
     (fresh_world 480 720 3)\<lparr>isGameOver := True\<rparr> \<and>
   run [Tick 16 0 0, Tick 50 0.5 0.5] ((fresh_world 480 720 3)\<lparr>isGameOver := True\<rparr>) =
     (fresh_world 480 720 3)\<lparr>isGameOver := True\<rparr>"
  using update_game_over [of "(fresh_world 480 720 3)\<lparr>isGameOver := True\<rparr>" 16 0 0 0
      "[Tick 16 0 0, Tick 50 0.5 0.5]"]
  by (simp add: update_def)

section \<open>The activate input\<close>

text \<open>
  C10. The activate input received while the game is over resets the world and returns
  without the upward impulse: the player is back at its start position with vertical
  velocity 0, the obstacles are gone, the score, the spawn timer and the background offset
  are 0, the game is no longer over, and the best score is kept. An activate input
  received while the game is not over sets the vertical velocity to the flap strength and
  changes nothing else of the world (but the running flag and the loop's timestamp, on
  the very first input). So the velocity after the input is the flap strength exactly when
  the game was not over.
\<close>

theorem flap_restart:
  fixes w :: world and now :: real
  defines "started \<equiv> (if isRunning w then w else w\<lparr>isRunning := True, lastTimestamp := now\<rparr>)"
  shows "(isGameOver w \<longrightarrow>
            flap now w = resetGame started \<and>
            mouthY (flap now w) = canvas_height w / 2 \<and>
            mouthX (flap now w) = canvas_width w * 0.28 \<and>
            mouthVelY (flap now w) = 0 \<and>
            pipes (flap now w) = [] \<and>
            score (flap now w) = 0 \<and>
            lastPipeAt (flap now w) = 0 \<and>
            backgroundOffset (flap now w) = 0 \<and>
            \<not> isGameOver (flap now w) \<and>
            best (flap now w) = best w) \<and>
         (\<not> isGameOver w \<longrightarrow> flap now w = started\<lparr>mouthVelY := FLAP_STRENGTH\<rparr>) \<and>
         (mouthVelY (flap now w) = FLAP_STRENGTH \<longleftrightarrow> \<not> isGameOver w)"
  by (simp add: started_def flap_def resetGame_def Let_def FLAP_STRENGTH_def)

theorem flap_restart_witness:
  "mouthVelY (flap 0 ((fresh_world 480 720 3)\<lparr>isGameOver := True, mouthVelY := 9\<rparr>)) = 0 \<and>
   score (flap 0 ((fresh_world 480 720 3)\<lparr>isGameOver := True, score := 2\<rparr>)) = 0 \<and>
   mouthVelY (flap 0 (fresh_world 480 720 3)) = - 7.5"
  using flap_restart [of "(fresh_world 480 720 3)\<lparr>isGameOver := True, mouthVelY := 9\<rparr>" 0]
    flap_restart [of "(fresh_world 480 720 3)\<lparr>isGameOver := True, score := 2\<rparr>" 0]
    flap_restart [of "fresh_world 480 720 3" 0]
  by (simp add: fresh_world_def FLAP_STRENGTH_def resetGame_def)

section \<open>Spawning an obstacle\<close>

text \<open>
  C4. Let the two random draws be numbers in \<open>[0, 1)\<close> and let the placement envelope be
  valid for the gap drawn (canvas height - 80 - 40 - gap > 40). Then \<open>spawnPipe\<close> appends
  one obstacle whose gap lies in \<open>[140, 200]\<close>, whose top height lies between 40 and
  canvas height - 80 - 40 - gap, so that top height + gap is at most canvas height - 80 - 40,
  and whose \<open>x\<close> is the canvas width plus its own width 70: it starts off-screen on the
  right. Its \<open>passed\<close> flag is false.
\<close>

theorem spawnPipe_envelope:
  fixes w :: world and r1 r2 :: real
  defines "p \<equiv> last (pipes (spawnPipe r1 r2 w))"
  assumes r1: "0 \<le> r1" "r1 < 1" and r2: "0 \<le> r2" "r2 < 1"
    and envelope: "canvas_height w - GROUND_HEIGHT - 40 - gap p > 40"
  shows "pipes (spawnPipe r1 r2 w) = pipes w @ [p] \<and>
         gap p = PIPE_GAP_MIN + r1 * (PIPE_GAP_MAX - PIPE_GAP_MIN) \<and>
         140 \<le> gap p \<and> gap p \<le> 200 \<and>
         40 \<le> topHeight p \<and> topHeight p \<le> canvas_height w - 80 - 40 - gap p \<and>
         topHeight p + gap p \<le> canvas_height w - 80 - 40 \<and>
         pipe_x p = canvas_width w + 70 \<and> width p = 70 \<and> \<not> passed p"
proof -
  define g where "g = PIPE_GAP_MIN + r1 * (PIPE_GAP_MAX - PIPE_GAP_MIN)"
  define d where "d = canvas_height w - GROUND_HEIGHT - 40 - g - 40"
  have pg: "gap p = g" by (simp add: p_def spawnPipe_def Let_def g_def)
  have pt: "topHeight p = 40 + r2 * d"
    by (simp add: p_def spawnPipe_def Let_def g_def d_def)
  have dpos: "0 < d" using envelope by (simp add: pg d_def)
  have g1: "140 \<le> g" using r1 by (simp add: g_def constants)
  have g2: "g \<le> 200" using r1 by (simp add: g_def constants)
  have t1: "0 \<le> r2 * d" using r2 dpos by simp
  have t2: "r2 * d \<le> d" using r2 dpos by (simp add: mult_left_le_one_le)
  have rest: "pipes (spawnPipe r1 r2 w) = pipes w @ [p]" "pipe_x p = canvas_width w + 70"
     "width p = 70" "\<not> passed p"
    by (simp_all add: p_def spawnPipe_def Let_def constants)
  show ?thesis
    using pg pt g1 g2 t1 t2 rest by (simp add: d_def g_def constants)
qed

theorem spawnPipe_envelope_witness:
  "pipes (spawnPipe 0.5 0.5 (fresh_world 480 720 0)) =
     [\<lparr>pipe_x = 550, width = 70, topHeight = 235, gap = 170, passed = False\<rparr>]"
proof -
  have e: "canvas_height (fresh_world 480 720 0) - GROUND_HEIGHT - 40 -
      gap (last (pipes (spawnPipe 0.5 0.5 (fresh_world 480 720 0)))) > 40"
    by (simp add: spawnPipe_def fresh_world_def constants Let_def)
  have "pipes (spawnPipe 0.5 0.5 (fresh_world 480 720 0)) =
      pipes (fresh_world 480 720 0) @ [last (pipes (spawnPipe 0.5 0.5 (fresh_world 480 720 0)))]"
    using spawnPipe_envelope [of "0.5" "0.5" "fresh_world 480 720 0", OF _ _ _ _ e] by simp
  then show ?thesis
    by (simp add: spawnPipe_def fresh_world_def constants Let_def)
qed

section \<open>Scoring\<close>

text \<open>
  C2. The score never decreases in a tick. In a tick that starts with the game not over,
  the obstacles that stay in the list are the old ones after \<open>tick_pipe\<close>, in their order
  (a spawned one comes after them), and the score grows by the number of obstacles whose
  flag flips in the tick: 1 for each. The flag of an obstacle flips in a tick exactly when
  it was false, the obstacle is not removed in the tick, and its centre after the advance
  is left of the centre of the player; after the tick the flag is true when it was true
  before or has flipped, so an obstacle that is already passed is never scored again.
  Through a run of ticks the score never decreases, and as long as the game is not over
  the obstacles of the start that are still in the list are the old ones after
  \<open>pipe_after\<close> for the number of ticks. Through these ticks the flag of an obstacle
  flips in at most one tick, and that tick is the first one in which its centre is found
  left of the centre of the player.
\<close>

theorem score_once_per_obstacle:
  fixes w :: world and dt r1 r2 mx :: real and p :: pipe and es :: "event list"
  defines "survivors \<equiv> List.map_filter (tick_pipe (mouthX w)) (pipes w)"
  defines "remaining \<equiv> List.map_filter (pipe_after (length es) (mouthX w)) (pipes w)"
  shows
   "score w \<le> score (update dt r1 r2 w) \<and>
    ((\<forall>e \<in> set es. is_tick e) \<longrightarrow> score w \<le> score (run es w)) \<and>
    (alive_ticks es w \<longrightarrow> take (length remaining) (pipes (run es w)) = remaining) \<and>
    (\<not> isGameOver w \<longrightarrow>
       take (length survivors) (pipes (update dt r1 r2 w)) = survivors \<and>
       score (update dt r1 r2 w) =
         score w + real (length (filter (flips (mouthX w)) (pipes w)))) \<and>
    (flips mx p \<longleftrightarrow>
       \<not> passed p \<and> tick_pipe mx p \<noteq> None \<and>
       pipe_x p - SCROLL_SPEED + width p / 2 < mx + MOUTH_SIZE / 2) \<and>
    (\<forall>q. tick_pipe mx p = Some q \<longrightarrow> passed q = (passed p \<or> flips mx p)) \<and>
    (\<forall>m n q q'. pipe_after m mx p = Some q \<and> flips mx q \<and>
        pipe_after n mx p = Some q' \<and> flips mx q' \<longrightarrow> m = n) \<and>
    (\<forall>n q k. pipe_after n mx p = Some q \<and> flips mx q \<and> 1 \<le> k \<and> k \<le> n \<longrightarrow>
        \<not> pipe_x p - real k * SCROLL_SPEED + width p / 2 < mx + MOUTH_SIZE / 2)"
proof -
  have a: "score w \<le> score (update dt r1 r2 w)" by (rule update_score_mono)
  have b: "\<not> isGameOver w \<longrightarrow>
       take (length survivors) (pipes (update dt r1 r2 w)) = survivors \<and>
       score (update dt r1 r2 w) =
         score w + real (length (filter (flips (mouthX w)) (pipes w)))"
    unfolding survivors_def using update_alive_pipes update_alive_score by blast
  have c: "flips mx p \<longleftrightarrow>
       \<not> passed p \<and> tick_pipe mx p \<noteq> None \<and>
       pipe_x p - SCROLL_SPEED + width p / 2 < mx + MOUTH_SIZE / 2"
    by (rule flips_iff)
  have d: "\<forall>q. tick_pipe mx p = Some q \<longrightarrow> passed q = (passed p \<or> flips mx p)"
    using tick_pipe_passed by blast
  have e: "\<forall>m n q q'. pipe_after m mx p = Some q \<and> flips mx q \<and>
        pipe_after n mx p = Some q' \<and> flips mx q' \<longrightarrow> m = n"
    using flip_unique by blast
  have f: "\<forall>n q k. pipe_after n mx p = Some q \<and> flips mx q \<and> 1 \<le> k \<and> k \<le> n \<longrightarrow>
        \<not> pipe_x p - real k * SCROLL_SPEED + width p / 2 < mx + MOUTH_SIZE / 2"
    using flip_first by blast
  have g: "(\<forall>e \<in> set es. is_tick e) \<longrightarrow> score w \<le> score (run es w)"
    using run_ticks_score_mono by blast
  have h: "alive_ticks es w \<longrightarrow> take (length remaining) (pipes (run es w)) = remaining"
    unfolding remaining_def using run_alive_pipes [of es w] by auto
  from a b c d e f g h show ?thesis by blast
qed

theorem score_once_per_obstacle_witness:
  "score (update 16 0 0 scenario_world) = 1 \<and>
   score (update 16 0 0 (update 16 0 0 scenario_world)) = 1 \<and>
   pipes (update 16 0 0 scenario_world) =
     [\<lparr>pipe_x = - 2.6, width = 70, topHeight = 100, gap = 150, passed = True\<rparr>]"
proof -
  have u1: "update 16 0 0 scenario_world =
      scenario_world\<lparr>mouthY := 360.45, mouthVelY := 0.45,
        pipes := [\<lparr>pipe_x = - 2.6, width = 70, topHeight = 100, gap = 150, passed = True\<rparr>],
        lastPipeAt := 16, score := 1, best := 1, backgroundOffset := 2.6,
        storage_writes := [1]\<rparr>"
    by (simp add: scenario_world_def fresh_world_def tick_defs constants)
  have a1: "\<not> isGameOver scenario_world"
    by (simp add: scenario_world_def fresh_world_def)
  have a2: "\<not> isGameOver (update 16 0 0 scenario_world)"
    by (simp add: u1) (simp add: scenario_world_def fresh_world_def)
  note t1 = score_once_per_obstacle [where w = scenario_world and dt = 16 and ?r1.0 = 0
      and ?r2.0 = 0, THEN conjunct2, THEN conjunct2, THEN conjunct2, THEN conjunct1,
      rule_format, OF a1]
  note t2 = score_once_per_obstacle [where w = "update 16 0 0 scenario_world" and dt = 16
      and ?r1.0 = 0 and ?r2.0 = 0, THEN conjunct2, THEN conjunct2, THEN conjunct2,
      THEN conjunct1, rule_format, OF a2, THEN conjunct2]
  have s1: "score (update 16 0 0 scenario_world) = 1"
    using t1 by (simp add: scenario_world_def fresh_world_def flips_def advance_def
        offscreen_def crossing_def constants)
  have s2: "score (update 16 0 0 (update 16 0 0 scenario_world)) = 1"
    using t2 s1
    by (simp add: u1) (simp add: scenario_world_def fresh_world_def flips_def advance_def
        offscreen_def crossing_def constants)
  have s3: "pipes (update 16 0 0 scenario_world) =
     [\<lparr>pipe_x = - 2.6, width = 70, topHeight = 100, gap = 150, passed = True\<rparr>]"
    by (simp add: u1)
  from s1 s2 s3 show ?thesis by simp
qed

section \<open>Scrolling and removal\<close>

text \<open>
  C7, as the specification states it, fails in its scenario: an obstacle at \<open>x = 0\<close> (of
  width 70, as every obstacle is) that scrolls for 30 ticks is at \<open>x = - 78\<close> and is still
  in the list, because the test for removal is on \<open>x + width\<close>, which is \<open>- 8\<close>.
\<close>

theorem obstacle_present_after_30_ticks:
  "pipes (run (replicate 30 (Tick 16 0 0)) scenario_world) =
     [\<lparr>pipe_x = - 78, width = 70, topHeight = 100, gap = 150, passed = True\<rparr>] \<and>
   pipes (run (replicate 30 (Tick 16 0 0)) scenario_world) \<noteq> []"
  by (simp add: numeral_eq_Suc scenario_world_def fresh_world_def tick_defs constants)

text \<open>
  C7, amended. In a tick that starts with the game not over, the \<open>x\<close> of every obstacle
  decreases by the scroll speed, and an obstacle leaves the list in exactly the tick in
  which, after the advance, \<open>x + width < - 10\<close>; the obstacles that stay keep their order,
  width, top height and gap, and a spawned one comes after them at the canvas width plus
  70. After \<open>n\<close> ticks an obstacle that is still in the list is at its first \<open>x\<close> minus
  \<open>n\<close> times the scroll speed, and it has left the list exactly when \<open>x + width\<close> was
  below \<open>- 10\<close> in one of these ticks; through a run of ticks in which the game is not
  over, the obstacles of the start that are still in the list are the old ones after
  \<open>pipe_after\<close> for the number of ticks. An obstacle of width 70 at \<open>x = 0\<close> is at
  \<open>x = - 78\<close> and in the list after 30 ticks, and is removed in tick 31.
\<close>

theorem obstacle_scroll_and_removal:
  fixes w :: world and dt r1 r2 mx :: real and p :: pipe and es :: "event list"
  defines "survivors \<equiv> List.map_filter (tick_pipe (mouthX w)) (pipes w)"
  defines "remaining \<equiv> List.map_filter (pipe_after (length es) (mouthX w)) (pipes w)"
  shows
   "(alive_ticks es w \<longrightarrow> take (length remaining) (pipes (run es w)) = remaining) \<and>
    (\<not> isGameOver w \<longrightarrow>
       take (length survivors) (pipes (update dt r1 r2 w)) = survivors \<and>
       (\<forall>q \<in> set (drop (length survivors) (pipes (update dt r1 r2 w))).
          pipe_x q = canvas_width w + PIPE_WIDTH)) \<and>
    (tick_pipe mx p = None \<longleftrightarrow> pipe_x p - SCROLL_SPEED + width p < - 10) \<and>
    (\<forall>q. tick_pipe mx p = Some q \<longrightarrow>
       pipe_x q = pipe_x p - SCROLL_SPEED \<and> width q = width p \<and>
       topHeight q = topHeight p \<and> gap q = gap p) \<and>
    (\<forall>n q. pipe_after n mx p = Some q \<longrightarrow> pipe_x q = pipe_x p - real n * SCROLL_SPEED) \<and>
    (pipe_after n mx p = None \<longleftrightarrow>
       (\<exists>k. 1 \<le> k \<and> k \<le> n \<and> pipe_x p - real k * SCROLL_SPEED + width p < - 10)) \<and>
    (pipe_x p = 0 \<and> width p = PIPE_WIDTH \<longrightarrow>
       (\<exists>q. pipe_after 30 mx p = Some q \<and> pipe_x q = - 78) \<and> pipe_after 31 mx p = None) \<and>
    pipes (run (replicate 31 (Tick 16 0 0)) scenario_world) = []"
proof -
  have a: "\<not> isGameOver w \<longrightarrow>
       take (length survivors) (pipes (update dt r1 r2 w)) = survivors \<and>
       (\<forall>q \<in> set (drop (length survivors) (pipes (update dt r1 r2 w))).
          pipe_x q = canvas_width w + PIPE_WIDTH)"
  proof
    assume alive: "\<not> isGameOver w"
    have s: "pipes (update_pipes (update_physics w)) = survivors"
      by (simp add: survivors_def update_pipes_pipes update_physics_frame)
    have "pipes (update dt r1 r2 w) = survivors \<or>
      (\<exists>q. pipes (update dt r1 r2 w) = survivors @ [q] \<and> pipe_x q = canvas_width w + PIPE_WIDTH)"
      using alive s
      by (simp add: update_def update_spawn_def spawnPipe_def Let_def update_pipes_frame
          update_physics_frame)
    then show "take (length survivors) (pipes (update dt r1 r2 w)) = survivors \<and>
       (\<forall>q \<in> set (drop (length survivors) (pipes (update dt r1 r2 w))).
          pipe_x q = canvas_width w + PIPE_WIDTH)"
      by auto
  qed
  have b: "tick_pipe mx p = None \<longleftrightarrow> pipe_x p - SCROLL_SPEED + width p < - 10"
    by (rule tick_pipe_None)
  have c: "\<forall>q. tick_pipe mx p = Some q \<longrightarrow>
       pipe_x q = pipe_x p - SCROLL_SPEED \<and> width q = width p \<and>
       topHeight q = topHeight p \<and> gap q = gap p"
    using tick_pipe_geometry by blast
  have d: "\<forall>n q. pipe_after n mx p = Some q \<longrightarrow> pipe_x q = pipe_x p - real n * SCROLL_SPEED"
    using pipe_after_geometry by blast
  have e: "pipe_after n mx p = None \<longleftrightarrow>
       (\<exists>k. 1 \<le> k \<and> k \<le> n \<and> pipe_x p - real k * SCROLL_SPEED + width p < - 10)"
    by (rule pipe_after_None)
  have f: "pipe_x p = 0 \<and> width p = PIPE_WIDTH \<longrightarrow>
       (\<exists>q. pipe_after 30 mx p = Some q \<and> pipe_x q = - 78) \<and> pipe_after 31 mx p = None"
    using scenario_pipe by blast
  have g: "alive_ticks es w \<longrightarrow> take (length remaining) (pipes (run es w)) = remaining"
    unfolding remaining_def using run_alive_pipes [of es w] by auto
  from a b c d e f g scenario_removed_at_31 show ?thesis by blast
qed

theorem obstacle_scroll_and_removal_witness:
  "pipes (update 16 0 0 scenario_world) =
     [\<lparr>pipe_x = - 2.6, width = 70, topHeight = 100, gap = 150, passed = True\<rparr>] \<and>
   pipe_after 31 134.4
     \<lparr>pipe_x = 0, width = 70, topHeight = 100, gap = 150, passed = False\<rparr> = None"
proof -
  let ?p = "\<lparr>pipe_x = 0, width = 70, topHeight = 100, gap = 150, passed = False\<rparr>"
  have a1: "\<not> isGameOver scenario_world"
    by (simp add: scenario_world_def fresh_world_def)
  note t = obstacle_scroll_and_removal [where w = scenario_world and dt = 16 and ?r1.0 = 0
      and ?r2.0 = 0 and mx = "134.4" and p = ?p and n = 0 and es = "[]", THEN conjunct2]
  have survivors: "List.map_filter (tick_pipe (mouthX scenario_world)) (pipes scenario_world) =
      [\<lparr>pipe_x = - 2.6, width = 70, topHeight = 100, gap = 150, passed = True\<rparr>]"
    by (simp add: scenario_world_def fresh_world_def List.map_filter_simps tick_pipe_def
        advance_def offscreen_def crossing_def Let_def constants)
  have len: "length (pipes (update 16 0 0 scenario_world)) = 1"
    by (simp add: scenario_world_def fresh_world_def tick_defs constants)
  have "take 1 (pipes (update 16 0 0 scenario_world)) =
      [\<lparr>pipe_x = - 2.6, width = 70, topHeight = 100, gap = 150, passed = True\<rparr>]"
    using t a1 by (simp add: survivors)
  then have p1: "pipes (update 16 0 0 scenario_world) =
      [\<lparr>pipe_x = - 2.6, width = 70, topHeight = 100, gap = 150, passed = True\<rparr>]"
    using len by simp
  have p2: "pipe_after 31 134.4 ?p = None"
    using t by (simp add: PIPE_WIDTH_def)
  from p1 p2 show ?thesis by simp
qed

section \<open>The best score\<close>

text \<open>
  C3, as the specification states it, fails when the stored best score is negative: the
  string \<open>-7\<close> is read as \<open>- 7\<close>, and after a tick without a point the best score is
  still \<open>- 7\<close> while the larger of the first best score and the largest score is 0; the
  score 0 is above the best score in that tick, and nothing is written.
\<close>

theorem best_score_negative_start:
  "initial_best (Some ''-7'') = Num (- 7) \<and>
   best (run [Tick 16 0 0] (fresh_world 480 720 (- 7))) = - 7 \<and>
   max (best (fresh_world 480 720 (- 7))) (max_score [Tick 16 0 0] (fresh_world 480 720 (- 7))) = 0 \<and>
   best (fresh_world 480 720 (- 7)) < score (update 16 0 0 (fresh_world 480 720 (- 7))) \<and>
   storage_writes (update 16 0 0 (fresh_world 480 720 (- 7))) =
     storage_writes (fresh_world 480 720 (- 7))"
proof -
  have r: "initial_best (Some ''-7'') = Num (- 7)"
    by (simp add: initial_best_def StringToNumber_def trim_def is_space_def radix_prefix_def
        unsigned_decimal_def is_exp_def mantissa_def digits_value_def digit_of_def)
  have u: "update 16 0 0 (fresh_world 480 720 (- 7)) =
      (fresh_world 480 720 (- 7))\<lparr>mouthY := 360.45, mouthVelY := 0.45, lastPipeAt := 16,
        backgroundOffset := 2.6\<rparr>"
    by (simp add: fresh_world_def tick_defs constants)
  show ?thesis
    using r by (simp add: u) (simp add: fresh_world_def)
qed

text \<open>
  C3, amended. The best score never decreases: not in a tick, not at the activate input,
  not over a run of both; the reset puts the score back to 0 and leaves the best score as
  it is. When the value read from the storage at start-up is a number \<open>b\<close> that is not
  negative, then after any run of ticks and activate inputs from the start the best score
  is the larger of \<open>b\<close> and the largest score of the run, and a tick at the end of such a
  run writes to the storage (the log grows) exactly when the score after the tick is above
  the best score before it. The same holds from every state with \<open>0 \<le> score \<le> best\<close>,
  and a run keeps that condition. The activate input writes nothing; one iteration of the
  loop writes exactly when it scores the obstacle and the new score is above the best
  score, and then it writes that score.
\<close>

theorem best_score_invariant:
  fixes w :: world and e :: event and es :: "event list" and now dt r1 r2 cw ch b :: real
    and i :: nat and item :: "string option"
  defines "start \<equiv> fresh_world cw ch b"
  shows
  "best w \<le> best (step e w) \<and>
   best w \<le> best (run es w) \<and>
   best (resetGame w) = best w \<and> score (resetGame w) = 0 \<and>
   (initial_best item = Num b \<and> 0 \<le> b \<longrightarrow>
      best (run es start) = max b (max_score es start) \<and>
      (length (storage_writes (run es start))
         < length (storage_writes (update dt r1 r2 (run es start))) \<longleftrightarrow>
       best (run es start) < score (update dt r1 r2 (run es start)))) \<and>
   (0 \<le> best w \<and> score w \<le> best w \<longrightarrow>
      best (run es w) = max (best w) (max_score es w) \<and>
      0 \<le> best (run es w) \<and> score (run es w) \<le> best (run es w)) \<and>
   storage_writes (flap now w) = storage_writes w \<and>
   storage_writes (pipe_body i w) =
     storage_writes w @
       (if flips (mouthX w) (pipes w ! i) \<and> best w < score w + 1 then [score w + 1] else []) \<and>
   length (storage_writes w) \<le> length (storage_writes (update dt r1 r2 w)) \<and>
   (score w \<le> best w \<longrightarrow>
      (length (storage_writes w) < length (storage_writes (update dt r1 r2 w)) \<longleftrightarrow>
         best w < score (update dt r1 r2 w)))"
proof -
  have wr: "\<And>v. score v \<le> best v \<longrightarrow>
      (length (storage_writes v) < length (storage_writes (update dt r1 r2 v)) \<longleftrightarrow>
         best v < score (update dt r1 r2 v))"
    using update_best_writes by auto
  have s: "0 \<le> b \<longrightarrow>
      best (run es start) = max b (max_score es start) \<and>
      (length (storage_writes (run es start))
         < length (storage_writes (update dt r1 r2 (run es start))) \<longleftrightarrow>
       best (run es start) < score (update dt r1 r2 (run es start)))"
  proof
    assume b: "0 \<le> b"
    have h: "0 \<le> best start" "score start \<le> best start"
      using b by (simp_all add: start_def fresh_world_def)
    have "best (run es start) = max (best start) (max_score es start)"
      by (rule run_best_max [OF h])
    then have 1: "best (run es start) = max b (max_score es start)"
      by (simp add: start_def fresh_world_def)
    have "score (run es start) \<le> best (run es start)"
      using run_best_inv [OF h] by simp
    then have 2: "length (storage_writes (run es start))
         < length (storage_writes (update dt r1 r2 (run es start))) \<longleftrightarrow>
       best (run es start) < score (update dt r1 r2 (run es start))"
      using wr [of "run es start"] by simp
    from 1 2 show "best (run es start) = max b (max_score es start) \<and>
      (length (storage_writes (run es start))
         < length (storage_writes (update dt r1 r2 (run es start))) \<longleftrightarrow>
       best (run es start) < score (update dt r1 r2 (run es start)))"
      by simp
  qed
  have g: "0 \<le> best w \<and> score w \<le> best w \<longrightarrow>
      best (run es w) = max (best w) (max_score es w) \<and>
      0 \<le> best (run es w) \<and> score (run es w) \<le> best (run es w)"
    using run_best_max [of w es] run_best_inv [of w es] by blast
  have rest: "best w \<le> best (step e w)" "best w \<le> best (run es w)"
    "best (resetGame w) = best w" "score (resetGame w) = 0"
    "storage_writes (flap now w) = storage_writes w"
    "storage_writes (pipe_body i w) =
     storage_writes w @
       (if flips (mouthX w) (pipes w ! i) \<and> best w < score w + 1 then [score w + 1] else [])"
    "length (storage_writes w) \<le> length (storage_writes (update dt r1 r2 w))"
    using update_best_writes [of w dt r1 r2]
    by (simp_all add: step_best_mono run_best_mono flap_best pipe_body_writes resetGame_def)
  from s g rest wr [of w] show ?thesis by blast
qed

theorem best_score_invariant_witness:
  "best (run [Tick 16 0 0, Tick 16 0 0] scenario_world) = 1 \<and>
   length (storage_writes (update 16 0 0 scenario_world)) = 1 \<and>
   best (run [Flap 0, Tick 16 0 0]
          (scenario_world\<lparr>isGameOver := True, score := 2, best := 2\<rparr>)) = 2 \<and>
   best (run [Tick 16 0 0, Flap 5, Tick 16 0 0] (fresh_world 480 720 3)) = 3 \<and>
   storage_writes (update 16 0 0 (run [Tick 16 0 0, Flap 5, Tick 16 0 0] (fresh_world 480 720 3))) = []"
proof -
  let ?es = "[Tick 16 0 0, Tick 16 0 0]"
  let ?w2 = "scenario_world\<lparr>isGameOver := True, score := 2, best := 2\<rparr>"
  let ?fs = "[Tick 16 0 0, Flap 5, Tick 16 0 0]"
  let ?s = "run ?fs (fresh_world 480 720 3)"
  have u1: "update 16 0 0 scenario_world =
      scenario_world\<lparr>mouthY := 360.45, mouthVelY := 0.45,
        pipes := [\<lparr>pipe_x = - 2.6, width = 70, topHeight = 100, gap = 150, passed = True\<rparr>],
        lastPipeAt := 16, score := 1, best := 1, backgroundOffset := 2.6,
        storage_writes := [1]\<rparr>"
    by (simp add: scenario_world_def fresh_world_def tick_defs constants)
  have m1: "max_score ?es scenario_world = 1"
    by (simp add: scenario_world_def fresh_world_def tick_defs constants)
  have h1: "0 \<le> best scenario_world \<and> score scenario_world \<le> best scenario_world"
    by (simp add: scenario_world_def fresh_world_def)
  have k1: "score scenario_world \<le> best scenario_world"
    using h1 by simp
  note run1 = best_score_invariant [where w = scenario_world and es = ?es,
      THEN conjunct2, THEN conjunct2, THEN conjunct2, THEN conjunct2, THEN conjunct2,
      THEN conjunct1, rule_format, OF h1, THEN conjunct1]
  note write1 = best_score_invariant [where w = scenario_world and dt = 16 and ?r1.0 = 0
      and ?r2.0 = 0, THEN conjunct2, THEN conjunct2, THEN conjunct2, THEN conjunct2,
      THEN conjunct2, THEN conjunct2, THEN conjunct2, THEN conjunct2, THEN conjunct2,
      rule_format, OF k1]
  have b1: "best (run ?es scenario_world) = 1"
    using run1 m1 by (simp add: scenario_world_def fresh_world_def)
  have "length (storage_writes scenario_world) < length (storage_writes (update 16 0 0 scenario_world))"
    using write1 by (simp add: u1) (simp add: scenario_world_def fresh_world_def)
  then have b2: "length (storage_writes (update 16 0 0 scenario_world)) = 1"
    by (simp add: u1)
  have m2: "max_score [Flap 0, Tick 16 0 0] ?w2 = 2"
    by (simp add: scenario_world_def fresh_world_def flap_def resetGame_def tick_defs constants)
  have h2: "0 \<le> best ?w2 \<and> score ?w2 \<le> best ?w2" by simp
  note run2 = best_score_invariant [where w = ?w2 and es = "[Flap 0, Tick 16 0 0]",
      THEN conjunct2, THEN conjunct2, THEN conjunct2, THEN conjunct2, THEN conjunct2,
      THEN conjunct1, rule_format, OF h2, THEN conjunct1]
  have b3: "best (run [Flap 0, Tick 16 0 0] ?w2) = 2"
    using run2 m2 by simp
  have r3: "initial_best (Some ''3'') = Num 3 \<and> (0::real) \<le> 3"
    by (simp add: initial_best_def StringToNumber_def trim_def is_space_def radix_prefix_def
        unsigned_decimal_def is_exp_def mantissa_def digits_value_def digit_of_def)
  have m3: "max_score ?fs (fresh_world 480 720 3) = 0"
    by (simp add: fresh_world_def flap_def tick_defs constants)
  have sc: "score (update 16 0 0 ?s) = 0"
    by (simp add: fresh_world_def flap_def tick_defs constants)
  have sw: "storage_writes ?s = []"
    by (simp add: fresh_world_def flap_def tick_defs constants)
  note t3 = best_score_invariant [where item = "Some ''3''" and b = 3 and cw = 480 and ch = 720
      and es = ?fs and dt = 16 and ?r1.0 = 0 and ?r2.0 = 0, THEN conjunct2, THEN conjunct2,
      THEN conjunct2, THEN conjunct2, THEN conjunct1, rule_format, OF r3]
  have b4: "best ?s = 3"
    using t3 [THEN conjunct1] m3 by simp
  have "\<not> length (storage_writes ?s) < length (storage_writes (update 16 0 0 ?s))"
    using t3 [THEN conjunct2] b4 sc by simp
  then have b5: "storage_writes (update 16 0 0 ?s) = []"
    using sw by simp
  from b1 b2 b3 b4 b5 show ?thesis by simp
qed

section \<open>Reading the best score\<close>

text \<open>
  C5, as the specification states it, fails for a stored string that is not an integer
  encoding: \<open>abc\<close> is read as NaN, not as 0.
\<close>

theorem initial_best_invalid:
  "\<not> integer_encoding ''abc'' \<and> initial_best (Some ''abc'') = NaN \<and>
   initial_best (Some ''abc'') \<noteq> Num 0"
  by (simp add: integer_encoding_def is_decimal_digit_def initial_best_def StringToNumber_def
      trim_def is_space_def radix_prefix_def unsigned_decimal_def is_exp_def mantissa_def
      digits_value_def digit_of_def)

text \<open>
  C5, amended. The best score read at start-up is 0 when nothing is stored and when the
  empty string is stored; it is \<open>n\<close> when the stored string is the decimal encoding of an
  integer \<open>n\<close> of magnitude at most \<open>2 ^ 53\<close> (what the game itself stores); any other
  stored string goes through the conversion of strings to numbers, which gives NaN for
  \<open>abc\<close> and the number 3.5 for \<open>3.5\<close>.
\<close>

theorem initial_best_read:
  "initial_best None = Num 0 \<and>
   initial_best (Some []) = Num 0 \<and>
   (\<bar>n\<bar> \<le> 2 ^ 53 \<longrightarrow>
      integer_encoding (String_of_int n) \<and>
      initial_best (Some (String_of_int n)) = Num (real_of_int n)) \<and>
   (s \<noteq> [] \<longrightarrow> initial_best (Some s) = StringToNumber s) \<and>
   StringToNumber ''abc'' = NaN \<and>
   StringToNumber ''3.5'' = Num 3.5"
proof -
  have enc: "integer_encoding (String_of_int n)"
  proof (cases "n < 0")
    case True
    then show ?thesis
      by (simp add: integer_encoding_def String_of_int_def dec_digits_not_Nil
          dec_digits_is_decimal_digit)
  next
    case False
    have "is_decimal_digit (hd (dec_digits (nat n)))"
      using list_all_hd_last [OF dec_digits_not_Nil dec_digits_is_decimal_digit] by simp
    then have "hd (dec_digits (nat n)) \<noteq> CHR ''-''"
      using is_decimal_digit_facts by blast
    then show ?thesis
      using False dec_digits_not_Nil [of "nat n"] dec_digits_is_decimal_digit [of "nat n"]
      by (cases "dec_digits (nat n)") (simp_all add: integer_encoding_def String_of_int_def)
  qed
  have abc: "StringToNumber ''abc'' = NaN"
    by (simp add: StringToNumber_def trim_def is_space_def radix_prefix_def
        unsigned_decimal_def is_exp_def mantissa_def digits_value_def digit_of_def)
  have frac: "StringToNumber ''3.5'' = Num 3.5"
    by (simp add: StringToNumber_def trim_def is_space_def radix_prefix_def
        unsigned_decimal_def is_exp_def mantissa_def digits_value_def opt_digits_value_def
        digit_of_def)
  show ?thesis
    using enc abc frac
    by (simp add: initial_best_String_of_int) (simp add: initial_best_def)
qed

theorem initial_best_read_witness:
  "integer_encoding ''42'' \<and> initial_best (Some ''42'') = Num 42 \<and>
   initial_best (Some ''-7'') = Num (- 7) \<and> initial_best (Some ''3.5'') = Num 3.5"
proof -
  have e1: "String_of_int 42 = ''42''" and e2: "String_of_int (- 7) = ''-7''"
    by (simp_all add: String_of_int_def digit_char_def dec_digits.simps)
  have b1: "\<bar>42 :: int\<bar> \<le> 2 ^ 53" and b2: "\<bar>- 7 :: int\<bar> \<le> 2 ^ 53"
    by simp_all
  note t1 = initial_best_read [of 42 "''3.5''", THEN conjunct2, THEN conjunct2]
  note t2 = initial_best_read [of "- 7" "''3.5''", THEN conjunct2, THEN conjunct2, THEN conjunct1,
      rule_format, OF b2]
  from t1 t2 b1 show ?thesis
    by (simp add: e1 e2)
qed

end
